(* ===== verification/Prelude.thy ===== *)
theory Prelude
  imports Complex_Main "HOL-Library.AList" "HOL-Library.Char_ord" "HOL-Library.List_Lexorder"
begin

text \<open>
  Shared vocabulary of the development.

  \<^item> \<open>exn\<close>: the exception classes that the Python modules raise.  A fallible operation returns
    \<open>exn + 'a\<close>; messages are not modelled, each class carries at most the sequence number that the
    code attaches to it.
  \<^item> \<open>json\<close>: the values that travel through canonical documents, with \<open>canon\<close> the key-sorted form
    that \<open>canonical_bytes\<close> writes and that Python's order-insensitive dict equality compares.
  \<^item> Python dicts are association lists in insertion order; \<open>AList.update\<close> overwrites in place or
    appends, which is what a Python dict does.
  \<^item> decimal rendering (\<open>f"{n}"\<close>, \<open>f"{n:06d}"\<close>) and its inverse.
  \<^item> \<open>replay\<close>: folding events into a state where a step may raise, with the locale that lifts a
    step invariant to every replayed log.
\<close>

named_theorems res_simps \<open>simplification rules for the error monad\<close>
named_theorems dict_simps \<open>lookup after update on Python dicts\<close>

section \<open>Exceptions and results\<close>

datatype exn =
    ValueError
  | TypeError
  | KeyError
  | RuntimeError
  | OverflowError
  | TornAppendError
  | InvalidEventError "int option"
  | UnknownSchemaError
  | DuplicateSequenceError "int option"
  | SequenceGapError int
  | PreviousDigestMismatchError int
  | EventDigestMismatchError int
  | MissingBlobError
  | BlobDigestMismatchError "int option"
  | RunSealedError
  | RunNotTerminalError
  | GenerationConflict
  | UnknownGeneration
  | IllegalGenerationTransition int
  | HookRaised
  | OSError
  | TimeoutError
  | ReservationConflict
  | ReservationUnavailable
  | EffectIndeterminate

type_synonym 'a res = "exn + 'a"

definition bind_res :: "'a res \<Rightarrow> ('a \<Rightarrow> 'b res) \<Rightarrow> 'b res" where
  "bind_res m f = (case m of Inl e \<Rightarrow> Inl e | Inr x \<Rightarrow> f x)"

definition guard_res :: "bool \<Rightarrow> exn \<Rightarrow> unit res" where
  "guard_res ok e = (if ok then Inr () else Inl e)"

definition need :: "'a option \<Rightarrow> exn \<Rightarrow> 'a res" where
  "need v e = (case v of None \<Rightarrow> Inl e | Some x \<Rightarrow> Inr x)"

fun map_res :: "('a \<Rightarrow> 'b res) \<Rightarrow> 'a list \<Rightarrow> 'b list res" where
  "map_res f [] = Inr []"
| "map_res f (x # xs) = bind_res (f x) (\<lambda>y. bind_res (map_res f xs) (\<lambda>ys. Inr (y # ys)))"

lemma bind_res_simps [simp, res_simps]:
  "bind_res (Inl e) f = Inl e"
  "bind_res (Inr x) f = f x"
  by (simp_all add: bind_res_def)

lemma bind_res_Inr_iff [res_simps]:
  "bind_res m f = Inr y \<longleftrightarrow> (\<exists>x. m = Inr x \<and> f x = Inr y)"
  by (cases m) simp_all

lemma bind_res_Inl_iff [res_simps]:
  "bind_res m f = Inl e \<longleftrightarrow> m = Inl e \<or> (\<exists>x. m = Inr x \<and> f x = Inl e)"
  by (cases m) auto

lemma guard_res_Inr_iff [simp, res_simps]: "guard_res ok e = Inr u \<longleftrightarrow> ok"
  by (simp add: guard_res_def)

lemma guard_res_Inl_iff [simp, res_simps]: "guard_res ok e = Inl e' \<longleftrightarrow> \<not> ok \<and> e' = e"
  by (auto simp: guard_res_def)

lemma bind_guard_res_Inr_iff [simp, res_simps]:
  "bind_res (guard_res ok e) f = Inr y \<longleftrightarrow> ok \<and> f () = Inr y"
  by (simp add: guard_res_def)

lemma need_simps [simp, res_simps]: "need None e = Inl e" "need (Some x) e = Inr x"
  by (simp_all add: need_def)

lemma need_Inr_iff [simp, res_simps]: "need v e = Inr x \<longleftrightarrow> v = Some x"
  by (cases v) simp_all

lemma map_res_Inr_length: "map_res f xs = Inr ys \<Longrightarrow> length ys = length xs"
  by (induction xs arbitrary: ys) (auto simp: bind_res_Inr_iff)

lemma map_res_Inr_nth:
  "map_res f xs = Inr ys \<Longrightarrow> i < length xs \<Longrightarrow> f (xs ! i) = Inr (ys ! i)"
  by (induction xs arbitrary: ys i) (auto simp: bind_res_Inr_iff nth_Cons split: nat.splits)

lemma map_res_append:
  "map_res f (xs @ ys) =
     bind_res (map_res f xs) (\<lambda>us. bind_res (map_res f ys) (\<lambda>vs. Inr (us @ vs)))"
  by (induction xs) (auto simp: bind_res_def split: sum.splits)

text \<open>Stateful operations: a result, or the exception raised, and the state left behind.\<close>

definition bind_op :: "('s \<Rightarrow> 'a res \<times> 's) \<Rightarrow> ('a \<Rightarrow> 's \<Rightarrow> 'b res \<times> 's) \<Rightarrow> 's \<Rightarrow> 'b res \<times> 's" where
  "bind_op m f s = (case m s of (Inl e, s') \<Rightarrow> (Inl e, s') | (Inr x, s') \<Rightarrow> f x s')"

definition return_op :: "'a res \<Rightarrow> 's \<Rightarrow> 'a res \<times> 's" where
  "return_op r s = (r, s)"

lemma bind_op_Inr_iff [res_simps]:
  "bind_op m f s = (Inr y, s') \<longleftrightarrow> (\<exists>x s1. m s = (Inr x, s1) \<and> f x s1 = (Inr y, s'))"
  by (auto simp: bind_op_def split: prod.splits sum.splits)

lemma bind_return_op [simp, res_simps]:
  "bind_op (return_op (Inr x)) f s = f x s" "bind_op (return_op (Inl e)) f s = (Inl e, s)"
  by (simp_all add: bind_op_def return_op_def)

section \<open>Simulation\<close>

text \<open>A detailed step system and the abstract one it implements: every step of the first is a run of the second
  between the abstractions, as long as the invariant holds.\<close>

locale simulation =
  fixes step :: "'s \<Rightarrow> 's \<Rightarrow> bool" and astep :: "'a \<Rightarrow> 'a \<Rightarrow> bool" and abs :: "'s \<Rightarrow> 'a" and inv :: "'s \<Rightarrow> bool"
  assumes simulates: "inv s \<Longrightarrow> step s s' \<Longrightarrow> astep\<^sup>*\<^sup>* (abs s) (abs s')"
    and inv_step: "inv s \<Longrightarrow> step s s' \<Longrightarrow> inv s'"
begin

lemma simulated_run: "step\<^sup>*\<^sup>* s s' \<Longrightarrow> inv s \<Longrightarrow> astep\<^sup>*\<^sup>* (abs s) (abs s') \<and> inv s'"
proof (induction rule: rtranclp_induct)
  case (step t u)
  then show ?case using simulates [of t u] inv_step by (meson rtranclp_trans)
qed simp

end

section \<open>Canonical documents\<close>

datatype json =
    JNull
  | JBool bool
  | JInt int
  | JFloat rat
  | JStr string
  | JArr "json list"
  | JObj "(string \<times> json) list"

type_synonym payload = "(string \<times> json) list"

text \<open>\<open>json.dumps(value, sort_keys=True)\<close> orders the keys of every object.\<close>

primrec canon :: "json \<Rightarrow> json" where
  "canon JNull = JNull"
| "canon (JBool b) = JBool b"
| "canon (JInt n) = JInt n"
| "canon (JFloat r) = JFloat r"
| "canon (JStr s) = JStr s"
| "canon (JArr xs) = JArr (map canon xs)"
| "canon (JObj kvs) = JObj (sort_key fst (map (map_prod id canon) kvs))"

definition same_dict :: "payload \<Rightarrow> payload \<Rightarrow> bool" where
  "same_dict a b = (canon (JObj a) = canon (JObj b))"

lemma same_dict_refl [simp]: "same_dict a a"
  by (simp add: same_dict_def)

lemma same_dict_sym: "same_dict a b \<Longrightarrow> same_dict b a"
  by (simp add: same_dict_def)

lemma same_dict_trans: "same_dict a b \<Longrightarrow> same_dict b c \<Longrightarrow> same_dict a c"
  by (simp add: same_dict_def)

text \<open>\<open>payload.get(name)\<close>, with \<open>None\<close> for an absent key as for a JSON null.\<close>

definition pget :: "payload \<Rightarrow> string \<Rightarrow> json" where
  "pget p k = (case map_of p k of None \<Rightarrow> JNull | Some v \<Rightarrow> v)"

fun is_str :: "json \<Rightarrow> bool" where
  "is_str (JStr _) = True"
| "is_str _ = False"

text \<open>\<open>isinstance(value, int)\<close> also holds of a Python bool; \<open>strict_int\<close> is the code's
  \<open>isinstance(value, int) and not isinstance(value, bool)\<close>.\<close>

fun as_int :: "json \<Rightarrow> int option" where
  "as_int (JInt n) = Some n"
| "as_int (JBool b) = Some (of_bool b)"
| "as_int _ = None"

fun strict_int :: "json \<Rightarrow> int option" where
  "strict_int (JInt n) = Some n"
| "strict_int _ = None"

fun as_str :: "json \<Rightarrow> string option" where
  "as_str (JStr s) = Some s"
| "as_str _ = None"

fun as_obj :: "json \<Rightarrow> payload option" where
  "as_obj (JObj kvs) = Some kvs"
| "as_obj _ = None"

fun as_arr :: "json \<Rightarrow> json list option" where
  "as_arr (JArr xs) = Some xs"
| "as_arr _ = None"

text \<open>Lists and dicts are not hashable, so looking one up as a dict key is a \<open>TypeError\<close>.\<close>

fun hashable :: "json \<Rightarrow> bool" where
  "hashable (JArr _) = False"
| "hashable (JObj _) = False"
| "hashable _ = True"

section \<open>Decimal rendering\<close>

definition digit_char :: "nat \<Rightarrow> char" where
  "digit_char d = char_of (48 + d)"

fun show_nat :: "nat \<Rightarrow> string" where
  "show_nat n = (if n < 10 then [digit_char n] else show_nat (n div 10) @ [digit_char (n mod 10)])"

declare show_nat.simps [simp del]

definition show_int :: "int \<Rightarrow> string" where
  "show_int k = (if k < 0 then ''-'' @ show_nat (nat (- k)) else show_nat (nat k))"

definition pad6 :: "string \<Rightarrow> string" where
  "pad6 s = replicate (6 - length s) (digit_char 0) @ s"

definition is_digit :: "char \<Rightarrow> bool" where
  "is_digit c = (48 \<le> (of_char c :: nat) \<and> (of_char c :: nat) \<le> 57)"

definition digit_value :: "char \<Rightarrow> nat" where
  "digit_value c = of_char c - 48"

definition read_nat :: "string \<Rightarrow> nat" where
  "read_nat s = foldl (\<lambda>acc c. acc * 10 + digit_value c) 0 s"

lemma of_char_digit_char: "d < 10 \<Longrightarrow> (of_char (digit_char d) :: nat) = 48 + d"
  by (simp add: digit_char_def)

lemma digit_value_digit_char [simp]: "d < 10 \<Longrightarrow> digit_value (digit_char d) = d"
  by (simp add: digit_value_def of_char_digit_char)

lemma is_digit_digit_char [simp]: "d < 10 \<Longrightarrow> is_digit (digit_char d)"
  by (simp add: is_digit_def of_char_digit_char)

lemma read_nat_snoc [simp]: "read_nat (s @ [c]) = read_nat s * 10 + digit_value c"
  by (simp add: read_nat_def)

lemma read_show_nat [simp]: "read_nat (show_nat n) = n"
proof (induction n rule: show_nat.induct)
  case (1 n)
  show ?case
  proof (cases "n < 10")
    case True
    then show ?thesis by (subst show_nat.simps) (simp add: read_nat_def)
  next
    case False
    with 1 show ?thesis by (subst show_nat.simps) simp
  qed
qed

lemma show_nat_digits: "c \<in> set (show_nat n) \<Longrightarrow> is_digit c"
proof (induction n rule: show_nat.induct)
  case (1 n)
  show ?case
    using 1 by (cases "n < 10") (auto simp: show_nat.simps [of n])
qed

lemma show_nat_ne [simp]: "show_nat n \<noteq> []"
  by (subst show_nat.simps) simp

lemma show_nat_inj [simp]: "show_nat m = show_nat n \<longleftrightarrow> m = n"
  by (metis read_show_nat)

lemma read_nat_zeros: "read_nat (replicate k (digit_char 0) @ s) = read_nat s"
proof -
  have "foldl (\<lambda>acc c. acc * 10 + digit_value c) 0 (replicate k (digit_char 0)) = 0"
    by (induction k) simp_all
  then show ?thesis by (simp add: read_nat_def)
qed

lemma read_nat_pad6 [simp]: "read_nat (pad6 (show_nat n)) = n"
  by (simp add: pad6_def read_nat_zeros)

lemma pad6_digits: "c \<in> set (pad6 (show_nat n)) \<Longrightarrow> is_digit c"
  by (auto simp: pad6_def dest: show_nat_digits)

lemma pad6_ne [simp]: "pad6 (show_nat n) \<noteq> []"
  by (simp add: pad6_def)

text \<open>A rendered number followed by a separator that is not a digit can be read back, so an
  identifier built from one is injective in it.\<close>

lemma digits_sep_inj:
  assumes "\<forall>c \<in> set a. is_digit c" "\<forall>c \<in> set b. is_digit c" "\<not> is_digit s"
    and "a @ s # x = b @ s # y"
  shows "a = b \<and> x = y"
  using assms by (induction a arbitrary: b) (auto simp: Cons_eq_append_conv)

lemma show_nat_sep_inj:
  assumes "show_nat m @ s # x = show_nat n @ s # y" "\<not> is_digit s"
  shows "m = n \<and> x = y"
  using digits_sep_inj [OF _ _ assms(2,1)] show_nat_digits by auto

section \<open>Replaying a log\<close>

fun replay :: "('s \<Rightarrow> 'e \<Rightarrow> 's res) \<Rightarrow> 's \<Rightarrow> 'e list \<Rightarrow> 's res" where
  "replay step s [] = Inr s"
| "replay step s (e # es) = bind_res (step s e) (\<lambda>s'. replay step s' es)"

lemma replay_append [res_simps]:
  "replay step s (es @ fs) = bind_res (replay step s es) (\<lambda>s'. replay step s' fs)"
  by (induction es arbitrary: s) (auto simp: bind_res_def split: sum.splits)

locale replayed =
  fixes step :: "'s \<Rightarrow> 'e \<Rightarrow> 's res" and init :: 's and inv :: "'s \<Rightarrow> bool"
  assumes inv_init: "inv init"
    and inv_step: "inv s \<Longrightarrow> step s e = Inr s' \<Longrightarrow> inv s'"
begin

lemma inv_from: "inv s \<Longrightarrow> replay step s es = Inr s' \<Longrightarrow> inv s'"
  by (induction es arbitrary: s) (auto simp: bind_res_Inr_iff intro: inv_step)

lemma inv_replay: "replay step init es = Inr s \<Longrightarrow> inv s"
  using inv_from inv_init by blast

lemma replay_prefix:
  assumes "replay step init (es @ fs) = Inr s"
  obtains s' where "replay step init es = Inr s'" "inv s'" "replay step s' fs = Inr s"
  using assms inv_replay by (auto simp: replay_append bind_res_Inr_iff)

lemma inv_snoc:
  "replay step init es = Inr s \<Longrightarrow> step s e = Inr s' \<Longrightarrow> replay step init (es @ [e]) = Inr s' \<and> inv s'"
  by (auto simp: replay_append intro: inv_step [OF inv_replay])

end

section \<open>Python dicts\<close>

abbreviation dict_set :: "'k \<Rightarrow> 'v \<Rightarrow> ('k \<times> 'v) list \<Rightarrow> ('k \<times> 'v) list" where
  "dict_set \<equiv> AList.update"

abbreviation dict_del :: "'k \<Rightarrow> ('k \<times> 'v) list \<Rightarrow> ('k \<times> 'v) list" where
  "dict_del \<equiv> AList.delete"

abbreviation dict_keys :: "('k \<times> 'v) list \<Rightarrow> 'k list" where
  "dict_keys \<equiv> map fst"

lemma map_of_dict_set [simp, dict_simps]: "map_of (dict_set k v d) = (map_of d)(k \<mapsto> v)"
  by (rule update_conv')

lemma map_of_dict_del [simp, dict_simps]: "map_of (dict_del k d) = (map_of d)(k := None)"
  by (rule delete_conv')

lemma distinct_dict_set [simp, dict_simps]:
  "distinct (dict_keys d) \<Longrightarrow> distinct (dict_keys (dict_set k v d))"
  by (rule distinct_update)

lemma distinct_dict_del [simp, dict_simps]:
  "distinct (dict_keys d) \<Longrightarrow> distinct (dict_keys (dict_del k d))"
  by (rule distinct_delete)

lemma dict_set_fresh [dict_simps]: "map_of d k = None \<Longrightarrow> dict_set k v d = d @ [(k, v)]"
  by (induction d) (auto split: if_splits)

lemma in_dict_iff: "map_of d k = None \<longleftrightarrow> k \<notin> set (dict_keys d)"
  by (simp add: map_of_eq_None_iff)

section \<open>Lists\<close>

lemma find_Some_set: "List.find P xs = Some x \<Longrightarrow> x \<in> set xs \<and> P x"
  by (auto simp: find_Some_iff)

lemma find_append: "List.find P (xs @ ys) = (case List.find P xs of Some x \<Rightarrow> Some x | None \<Rightarrow> List.find P ys)"
  by (induction xs) auto

text \<open>A dict comprehension \<open>{k: v for ...}\<close>: a later key overwrites the value and keeps the place.\<close>

definition dict_of :: "('k \<times> 'v) list \<Rightarrow> ('k \<times> 'v) list" where
  "dict_of kvs = foldl (\<lambda>d (k, v). dict_set k v d) [] kvs"

lemma map_of_foldl_dict_set:
  "map_of (foldl (\<lambda>d (k, v). dict_set k v d) d kvs) = map_of d ++ map_of (rev kvs)"
  by (induction kvs arbitrary: d) (auto simp: fun_eq_iff map_add_def split: option.splits)

lemma map_of_dict_of [simp, dict_simps]: "map_of (dict_of kvs) = map_of (rev kvs)"
  by (simp add: dict_of_def map_of_foldl_dict_set)

lemma distinct_dict_of [dict_simps]: "distinct (dict_keys (dict_of kvs))"
proof -
  have "distinct (dict_keys d) \<Longrightarrow> distinct (dict_keys (foldl (\<lambda>d (k, v). dict_set k v d) d kvs))" for d
    by (induction kvs arbitrary: d) (auto simp: distinct_update)
  then show ?thesis by (simp add: dict_of_def)
qed

lemma map_of_dict_of_Some: "map_of (dict_of kvs) k = Some v \<Longrightarrow> (k, v) \<in> set kvs"
  by (auto dest: map_of_SomeD)

lemma map_of_dict_of_None: "map_of (dict_of kvs) k = None \<longleftrightarrow> k \<notin> fst ` set kvs"
  by (simp add: map_of_eq_None_iff)

end
