(* ===== verification/Event_Store.thy ===== *)
theory Event_Store
  imports Prelude
begin

text \<open>
  The canonical event store: \<open>solver/event_store_core.py\<close> with the data types of
  \<open>solver/event_store_contracts.py\<close> and the durable primitives of
  \<open>solver/event_store_storage.py\<close>.

  A store is two append-only line files (the canonical stream and the reservation stream), a
  directory of sealed blobs, the Run identity, the redactor and the append hook.  A line is a parsed
  JSON value, a blank line or a line that is not JSON; \<open>torn\<close> says that the file does not end with a
  newline.  SHA-256, the rendering of JSON to bytes and \<open>str()\<close> of a value that is not a string are
  the fields of \<open>env\<close>; the event contracts are a registry that the store looks up by event type.
  The append hook raises at a named phase, which is how a crash between two durable writes is
  expressed.  File-system failures and the writer lock are not modelled: every operation here is one
  critical section of \<open>writer_batch\<close>.
\<close>

section \<open>Data\<close>

record env =
  sha_json :: "json \<Rightarrow> string"
  sha_bytes :: "string \<Rightarrow> string"
  py_repr :: "json \<Rightarrow> string"

datatype line = Text json | Blank | Bad

record stream =
  lines :: "line list"
  torn :: bool

datatype ReservationStatus = RESERVED | COMMITTED | RECOVERED

fun status_value :: "ReservationStatus \<Rightarrow> string" where
  "status_value RESERVED = ''reserved''"
| "status_value COMMITTED = ''committed''"
| "status_value RECOVERED = ''recovered''"

definition read_status :: "json \<Rightarrow> ReservationStatus option" where
  "read_status v =
     (if v = JStr ''reserved'' then Some RESERVED
      else if v = JStr ''committed'' then Some COMMITTED
      else if v = JStr ''recovered'' then Some RECOVERED
      else None)"

record EventReservation =
  rv_sequence :: int
  rv_previous_digest :: string
  rv_run_id :: string
  rv_event_type :: string
  rv_event_fingerprint :: string
  rv_blob_digest :: string
  rv_blob_bytes :: int
  rv_reservation_id :: string
  rv_status :: ReservationStatus

record CommittedEvent =
  ce_sequence :: int
  ce_previous_digest :: string
  ce_event_digest :: string
  ce_event_type :: string
  ce_payload :: payload
  ce_envelope :: payload
  ce_blob_digest :: string
  ce_blob_bytes :: int
  ce_body :: string

text \<open>A proposed event: its type, identity, optional \<open>event_id\<close> and the payload it renders for a
  blob digest and length.\<close>

record CanonicalEvent =
  ev_type :: string
  ev_identity :: json
  ev_event_id :: "string option"
  ev_payload :: "string \<Rightarrow> int \<Rightarrow> payload"

record contract =
  validate_payload :: "payload \<Rightarrow> int \<Rightarrow> unit res"
  identity_from_payload :: "payload \<Rightarrow> json"
  exact_payload_identity :: bool

type_synonym registry = "string \<Rightarrow> contract option"

record store =
  st_run_id :: string
  st_events :: stream
  st_reservations :: stream
  st_sealed :: "(string \<times> string) list"
  st_redactor :: "string \<Rightarrow> string"
  st_hook :: "string \<Rightarrow> exn option"

record CompareAndAppendResult =
  ca_committed :: "CommittedEvent option"
  ca_observed :: "CommittedEvent option"

record TerminalEventStoreSnapshot =
  ts_run_id :: string
  ts_events :: "CommittedEvent list"
  ts_chain_head :: string

type_synonym 'a op = "store \<Rightarrow> 'a res \<times> store"

section \<open>Primitives\<close>

definition canon_dict :: "payload \<Rightarrow> payload" where
  "canon_dict p = sort_key fst (map (map_prod id canon) p)"

definition digest_json :: "env \<Rightarrow> payload \<Rightarrow> string" where
  "digest_json E p = sha_json E (canon (JObj p))"

definition event_fingerprint :: "env \<Rightarrow> payload \<Rightarrow> string" where
  "event_fingerprint E p = digest_json E p"

primrec redact_json :: "(string \<Rightarrow> string) \<Rightarrow> json \<Rightarrow> json" where
  "redact_json red JNull = JNull"
| "redact_json red (JBool b) = JBool b"
| "redact_json red (JInt n) = JInt n"
| "redact_json red (JFloat r) = JFloat r"
| "redact_json red (JStr s) = JStr (red s)"
| "redact_json red (JArr xs) = JArr (map (redact_json red) xs)"
| "redact_json red (JObj kvs) = JObj (map (map_prod id (redact_json red)) kvs)"

definition redact_dict :: "(string \<Rightarrow> string) \<Rightarrow> payload \<Rightarrow> payload" where
  "redact_dict red p = map (map_prod id (redact_json red)) p"

definition py_str :: "env \<Rightarrow> json \<Rightarrow> string" where
  "py_str E v = (case v of JStr s \<Rightarrow> s | _ \<Rightarrow> py_repr E v)"

text \<open>A JSON value that Python compares equal to the integer \<open>n\<close>, and the integer that a value is
  as a dict key.\<close>

fun py_int_key :: "json \<Rightarrow> int option" where
  "py_int_key (JInt n) = Some n"
| "py_int_key (JBool b) = Some (of_bool b)"
| "py_int_key (JFloat r) = (if r = of_int \<lfloor>r\<rfloor> then Some \<lfloor>r\<rfloor> else None)"
| "py_int_key _ = None"

definition py_eq_int :: "json \<Rightarrow> int \<Rightarrow> bool" where
  "py_eq_int v n = (py_int_key v = Some n)"

definition pidx :: "payload \<Rightarrow> string \<Rightarrow> json res" where
  "pidx p k = (case map_of p k of None \<Rightarrow> Inl KeyError | Some v \<Rightarrow> Inr v)"

definition append_durable :: "stream \<Rightarrow> payload \<Rightarrow> stream" where
  "append_durable f doc = f\<lparr>lines := lines f @ [Text (canon (JObj doc))]\<rparr>"

definition CANONICAL_SCHEMA_VERSION :: int where
  "CANONICAL_SCHEMA_VERSION = 1"

definition as_dict :: "EventReservation \<Rightarrow> payload" where
  "as_dict r =
     [(''schema_version'', JInt CANONICAL_SCHEMA_VERSION),
      (''reservation_id'', JStr (rv_reservation_id r)),
      (''sequence'', JInt (rv_sequence r)),
      (''previous_digest'', JStr (rv_previous_digest r)),
      (''run_id'', JStr (rv_run_id r)),
      (''event_type'', JStr (rv_event_type r)),
      (''event_fingerprint'', JStr (rv_event_fingerprint r)),
      (''blob_digest'', JStr (rv_blob_digest r)),
      (''blob_bytes'', JInt (rv_blob_bytes r)),
      (''status'', JStr (status_value (rv_status r)))]"

section \<open>Reading the reservation stream\<close>

definition reservation_fields :: "string list" where
  "reservation_fields =
     [''reservation_id'', ''sequence'', ''previous_digest'', ''run_id'', ''event_type'',
      ''event_fingerprint'', ''blob_digest'', ''blob_bytes'', ''status'']"

definition parse_reservation :: "env \<Rightarrow> int \<Rightarrow> line \<Rightarrow> EventReservation res" where
  "parse_reservation E line_number l =
     (case l of
        Text (JObj row) \<Rightarrow>
          (let seen = as_int (pget row ''sequence'') in
           if \<not> py_eq_int (pget row ''schema_version'') CANONICAL_SCHEMA_VERSION
           then Inl UnknownSchemaError
           else if \<exists>k \<in> set reservation_fields. map_of row k = None then Inl (InvalidEventError seen)
           else (case (as_int (pget row ''sequence''), as_int (pget row ''blob_bytes'')) of
               (Some sq, Some n) \<Rightarrow>
                 (case read_status (pget row ''status'') of
                    None \<Rightarrow> Inl (InvalidEventError seen)
                  | Some status \<Rightarrow>
                      Inr \<lparr>rv_sequence = sq,
                           rv_previous_digest = py_str E (pget row ''previous_digest''),
                           rv_run_id = py_str E (pget row ''run_id''),
                           rv_event_type = py_str E (pget row ''event_type''),
                           rv_event_fingerprint = py_str E (pget row ''event_fingerprint''),
                           rv_blob_digest = py_str E (pget row ''blob_digest''),
                           rv_blob_bytes = n,
                           rv_reservation_id = py_str E (pget row ''reservation_id''),
                           rv_status = status\<rparr>)
             | _ \<Rightarrow> Inl (InvalidEventError seen)))
      | _ \<Rightarrow> Inl (InvalidEventError (Some line_number)))"

text \<open>The per-row checks against the rows before it: \<open>latest_by_id\<close> and \<open>owner_by_sequence\<close>.\<close>

definition check_reservation ::
  "string \<Rightarrow> (string \<times> EventReservation) list \<Rightarrow> (int \<times> string) list \<Rightarrow> EventReservation \<Rightarrow> unit res"
where
  "check_reservation run latest_by_id owner_by_sequence r =
     (let bad = DuplicateSequenceError (Some (rv_sequence r)) in
      if rv_sequence r < 1 then Inl (InvalidEventError (Some (rv_sequence r)))
      else case map_of latest_by_id (rv_reservation_id r) of
        None \<Rightarrow>
          (case map_of owner_by_sequence (rv_sequence r) of
             Some owner \<Rightarrow>
               if owner \<noteq> rv_reservation_id r then Inl bad
               else guard_res (rv_run_id r = run) (InvalidEventError (Some (rv_sequence r)))
           | None \<Rightarrow> guard_res (rv_run_id r = run) (InvalidEventError (Some (rv_sequence r))))
      | Some previous \<Rightarrow>
          if rv_sequence previous \<noteq> rv_sequence r \<or> rv_run_id previous \<noteq> rv_run_id r
             \<or> rv_event_type previous \<noteq> rv_event_type r
             \<or> rv_event_fingerprint previous \<noteq> rv_event_fingerprint r
             \<or> rv_blob_digest previous \<noteq> rv_blob_digest r
             \<or> rv_blob_bytes previous \<noteq> rv_blob_bytes r
             \<or> rv_status previous \<noteq> RESERVED
             \<or> rv_status r \<notin> {COMMITTED, RECOVERED}
          then Inl bad
          else guard_res (rv_run_id r = run) (InvalidEventError (Some (rv_sequence r))))"

record res_scan =
  sc_rows :: "EventReservation list"
  sc_latest :: "(string \<times> EventReservation) list"
  sc_owner :: "(int \<times> string) list"

definition scan_init :: res_scan where
  "scan_init = \<lparr>sc_rows = [], sc_latest = [], sc_owner = []\<rparr>"

definition scan_row :: "env \<Rightarrow> string \<Rightarrow> res_scan \<Rightarrow> line \<Rightarrow> res_scan res" where
  "scan_row E run sc l =
     bind_res (parse_reservation E (int (length (sc_rows sc)) + 1) l) (\<lambda>r.
     bind_res (check_reservation run (sc_latest sc) (sc_owner sc) r) (\<lambda>_.
     Inr \<lparr>sc_rows = sc_rows sc @ [r],
          sc_latest = dict_set (rv_reservation_id r) r (sc_latest sc),
          sc_owner = dict_set (rv_sequence r) (rv_reservation_id r) (sc_owner sc)\<rparr>))"

definition read_reservations :: "env \<Rightarrow> store \<Rightarrow> EventReservation list res" where
  "read_reservations E s =
     (if torn (st_reservations s) then Inl TornAppendError
      else bind_res (replay (scan_row E (st_run_id s)) scan_init (lines (st_reservations s)))
             (\<lambda>sc. Inr (sc_rows sc)))"

definition reservation_for_sequence :: "env \<Rightarrow> int \<Rightarrow> store \<Rightarrow> EventReservation option res" where
  "reservation_for_sequence E sq s =
     bind_res (read_reservations E s) (\<lambda>rows.
     let matches = filter (\<lambda>r. rv_sequence r = sq) rows in
     Inr (if matches = [] then None else Some (last matches)))"

section \<open>Reading and verifying the canonical stream\<close>

text \<open>One line of the chain, expected to carry sequence \<open>n\<close> and predecessor digest \<open>prev\<close>;
  \<open>is_last\<close> tells a torn final line from an invalid earlier one.\<close>

definition verify_line ::
  "env \<Rightarrow> registry \<Rightarrow> string \<Rightarrow> int \<Rightarrow> string \<Rightarrow> bool \<Rightarrow> line \<Rightarrow> CommittedEvent res"
where
  "verify_line E C run n prev is_last l =
     (case l of
        Blank \<Rightarrow> Inl TornAppendError
      | Bad \<Rightarrow> Inl (if is_last then TornAppendError else InvalidEventError (Some n))
      | Text v \<Rightarrow>
        bind_res (need (as_obj v) (InvalidEventError (Some n))) (\<lambda>envelope.
        bind_res (need (as_int (pget envelope ''seq'')) (InvalidEventError (Some n))) (\<lambda>sq.
        bind_res (guard_res (py_eq_int (pget envelope ''schema_version'') CANONICAL_SCHEMA_VERSION)
                    UnknownSchemaError) (\<lambda>_.
        bind_res (guard_res (\<not> sq < n) (DuplicateSequenceError (Some sq))) (\<lambda>_.
        bind_res (guard_res (\<not> sq > n) (SequenceGapError sq)) (\<lambda>_.
        bind_res (guard_res (pget envelope ''prev_digest'' = JStr prev)
                    (PreviousDigestMismatchError sq)) (\<lambda>_.
        bind_res (need (as_str (pget envelope ''event_digest'')) (InvalidEventError (Some sq)))
          (\<lambda>event_digest.
        bind_res (guard_res
                    (digest_json E (filter (\<lambda>kv. fst kv \<noteq> ''event_digest'') envelope) = event_digest)
                    (EventDigestMismatchError sq)) (\<lambda>_.
        bind_res (need (as_str (pget envelope ''event_type'')) (InvalidEventError (Some sq)))
          (\<lambda>event_type.
        bind_res (need (as_str (pget envelope ''run_id'')) (InvalidEventError (Some sq))) (\<lambda>run_id.
        bind_res (need (as_obj (pget envelope ''payload'')) (InvalidEventError (Some sq))) (\<lambda>payload.
        bind_res (guard_res (run_id = run) (InvalidEventError (Some sq))) (\<lambda>_.
        bind_res (need (C event_type) (InvalidEventError (Some sq))) (\<lambda>contract.
        bind_res (validate_payload contract payload sq) (\<lambda>_.
        bind_res (need (as_str (pget payload ''blob_digest'')) (InvalidEventError (Some sq)))
          (\<lambda>blob_digest.
        bind_res (need (as_int (pget payload ''blob_bytes'')) (InvalidEventError (Some sq)))
          (\<lambda>blob_bytes.
        Inr \<lparr>ce_sequence = sq, ce_previous_digest = prev,
             ce_event_digest = event_digest, ce_event_type = event_type,
             ce_payload = payload, ce_envelope = envelope,
             ce_blob_digest = blob_digest, ce_blob_bytes = blob_bytes,
             ce_body = ''''\<rparr>)))))))))))))))))"

fun verify_chain ::
  "env \<Rightarrow> registry \<Rightarrow> string \<Rightarrow> int \<Rightarrow> string \<Rightarrow> line list \<Rightarrow> CommittedEvent list res"
where
  "verify_chain E C run n prev [] = Inr []"
| "verify_chain E C run n prev (l # ls) =
     bind_res (verify_line E C run n prev (ls = []) l) (\<lambda>c.
     bind_res (verify_chain E C run (n + 1) (ce_event_digest c) ls) (\<lambda>cs. Inr (c # cs)))"

definition blob :: "env \<Rightarrow> string \<Rightarrow> store \<Rightarrow> string res" where
  "blob E digest s =
     (case map_of (st_sealed s) digest of
        None \<Rightarrow> Inl MissingBlobError
      | Some body \<Rightarrow> if sha_bytes E body \<noteq> digest then Inl (BlobDigestMismatchError None) else Inr body)"

definition is_tombstone :: "CommittedEvent \<Rightarrow> bool" where
  "is_tombstone c =
     (ce_event_type c = ''storage-governor.recorded''
      \<and> pget (ce_payload c) ''record'' = JStr ''retirement-tombstone'')"

definition release_target ::
  "CommittedEvent list \<Rightarrow> CommittedEvent \<Rightarrow> json \<Rightarrow> json \<Rightarrow> json \<Rightarrow> int res"
where
  "release_target events event digest len v =
     (let invalid = InvalidEventError (Some (ce_sequence event)) in
      bind_res (guard_res (hashable v) TypeError) (\<lambda>_.
      bind_res (need (py_int_key v) invalid) (\<lambda>sq.
      bind_res (need (List.find (\<lambda>c. ce_sequence c = sq) events) invalid) (\<lambda>target.
      bind_res (guard_res (sq < ce_sequence event \<and> JStr (ce_blob_digest target) = digest
                  \<and> py_eq_int len (ce_blob_bytes target)) invalid) (\<lambda>_.
      Inr sq)))))"

definition release_step ::
  "env \<Rightarrow> CommittedEvent list \<Rightarrow> int list \<Rightarrow> CommittedEvent \<Rightarrow> int list res"
where
  "release_step E events released event =
     (if \<not> is_tombstone event then Inr released
      else
        bind_res (pidx (ce_payload event) ''target_digest'') (\<lambda>digest.
        bind_res (pidx (ce_payload event) ''target_length'') (\<lambda>len.
        bind_res (pidx (ce_payload event) ''path'') (\<lambda>path.
        bind_res (guard_res (path = JStr (''sealed/sha256/'' @ py_str E digest))
                    (InvalidEventError (Some (ce_sequence event)))) (\<lambda>_.
        bind_res (pidx (ce_payload event) ''event_sequences'') (\<lambda>seqs.
        bind_res (need (as_arr seqs) TypeError) (\<lambda>vs.
        bind_res (map_res (release_target events event digest len) vs) (\<lambda>new.
        Inr (released @ new)))))))))"

definition released_event_sequences :: "env \<Rightarrow> CommittedEvent list \<Rightarrow> int list res" where
  "released_event_sequences E events = replay (release_step E events) [] events"

definition attach_body :: "env \<Rightarrow> store \<Rightarrow> int list \<Rightarrow> CommittedEvent \<Rightarrow> CommittedEvent res" where
  "attach_body E s released c =
     bind_res
       (case blob E (ce_blob_digest c) s of
          Inl MissingBlobError \<Rightarrow>
            if ce_sequence c \<notin> set released then Inl MissingBlobError else Inr ''''
        | r \<Rightarrow> r)
       (\<lambda>body.
          if body \<noteq> [] \<and> int (length body) \<noteq> ce_blob_bytes c
          then Inl (BlobDigestMismatchError (Some (ce_sequence c)))
          else if body = [] \<and> ce_blob_bytes c \<noteq> 0 \<and> ce_sequence c \<notin> set released
          then Inl (BlobDigestMismatchError (Some (ce_sequence c)))
          else Inr (c\<lparr>ce_body := body\<rparr>))"

definition attach_verified_bodies ::
  "env \<Rightarrow> store \<Rightarrow> CommittedEvent list \<Rightarrow> CommittedEvent list res"
where
  "attach_verified_bodies E s events =
     bind_res (released_event_sequences E events) (\<lambda>released.
     map_res (attach_body E s released) events)"

definition read_verified :: "env \<Rightarrow> registry \<Rightarrow> store \<Rightarrow> CommittedEvent list res" where
  "read_verified E C s =
     bind_res (read_reservations E s) (\<lambda>_.
     if torn (st_events s) then Inl TornAppendError
     else bind_res (verify_chain E C (st_run_id s) 1 '''' (lines (st_events s)))
            (attach_verified_bodies E s))"

section \<open>Looking up what is already recorded\<close>

definition find_exact_identity ::
  "CommittedEvent list \<Rightarrow> CanonicalEvent \<Rightarrow> payload \<Rightarrow> CommittedEvent option"
where
  "find_exact_identity existing ev payload =
     List.find (\<lambda>prior. ce_event_type prior = ev_type ev \<and> same_dict (ce_payload prior) payload) existing"

fun find_identity ::
  "registry \<Rightarrow> CommittedEvent list \<Rightarrow> CanonicalEvent \<Rightarrow> payload \<Rightarrow> CommittedEvent option res"
where
  "find_identity C [] ev payload = Inr None"
| "find_identity C (prior # rest) ev payload =
     (let contract = C (ce_event_type prior);
          identity = map_option (\<lambda>c. identity_from_payload c (ce_payload prior)) contract
      in if ce_event_type prior \<noteq> ev_type ev \<or> identity \<noteq> Some (ev_identity ev)
         then find_identity C rest ev payload
         else case ev_event_id ev of
           None \<Rightarrow>
             if same_dict (ce_payload prior) payload then Inr (Some prior)
             else find_identity C rest ev payload
         | Some event_id \<Rightarrow>
             if pget (ce_payload prior) ''event_id'' \<noteq> JStr event_id
             then find_identity C rest ev payload
             else if JStr (ce_blob_digest prior) = pget payload ''blob_digest''
                     \<and> (\<not> (case contract of None \<Rightarrow> False | Some c \<Rightarrow> exact_payload_identity c)
                         \<or> same_dict (ce_payload prior) payload)
             then Inr (Some prior)
             else Inl (DuplicateSequenceError (Some (ce_sequence prior))))"

definition refuse_after_terminal :: "CommittedEvent list \<Rightarrow> unit res" where
  "refuse_after_terminal existing =
     guard_res (existing = [] \<or> pget (ce_payload (last existing)) ''record'' \<noteq> JStr ''run-close'')
       RunSealedError"

definition reservation_matches ::
  "env \<Rightarrow> string \<Rightarrow> CanonicalEvent \<Rightarrow> payload \<Rightarrow> EventReservation \<Rightarrow> bool"
where
  "reservation_matches E run ev payload r =
     (rv_status r = RESERVED \<and> rv_event_type r = ev_type ev \<and> rv_run_id r = run
      \<and> rv_event_fingerprint r = event_fingerprint E payload
      \<and> JStr (rv_blob_digest r) = pget payload ''blob_digest''
      \<and> py_eq_int (pget payload ''blob_bytes'') (rv_blob_bytes r))"

definition find_reservation_for_payload ::
  "env \<Rightarrow> CanonicalEvent \<Rightarrow> payload \<Rightarrow> store \<Rightarrow> EventReservation option res"
where
  "find_reservation_for_payload E ev payload s =
     bind_res (read_reservations E s) (\<lambda>rows.
     case filter (reservation_matches E (st_run_id s) ev payload) rows of
       [] \<Rightarrow> Inr None
     | [r] \<Rightarrow> Inr (Some r)
     | _ \<Rightarrow> Inl (DuplicateSequenceError None))"

section \<open>Durable writes\<close>

definition record_reservation :: "EventReservation \<Rightarrow> ReservationStatus option \<Rightarrow> store \<Rightarrow> store" where
  "record_reservation r status s =
     s\<lparr>st_reservations := append_durable (st_reservations s)
         (as_dict (r\<lparr>rv_status := (case status of None \<Rightarrow> rv_status r | Some st \<Rightarrow> st)\<rparr>))\<rparr>"

definition recover_reservation_locked :: "env \<Rightarrow> int \<Rightarrow> unit op" where
  "recover_reservation_locked E sq s =
     (case reservation_for_sequence E sq s of
        Inl e \<Rightarrow> (Inl e, s)
      | Inr None \<Rightarrow> (Inr (), s)
      | Inr (Some r) \<Rightarrow>
          if rv_status r = RESERVED then (Inr (), record_reservation r (Some RECOVERED) s)
          else (Inr (), s))"

text \<open>\<open>self._recover_reservation_locked(prior); return prior\<close>\<close>

definition recover_and_return :: "env \<Rightarrow> CommittedEvent \<Rightarrow> CommittedEvent op" where
  "recover_and_return E prior s =
     (case recover_reservation_locked E (ce_sequence prior) s of
        (Inl e, s') \<Rightarrow> (Inl e, s')
      | (Inr _, s') \<Rightarrow> (Inr prior, s'))"

definition seal_blob :: "env \<Rightarrow> string \<Rightarrow> string \<Rightarrow> unit op" where
  "seal_blob E digest body s =
     (case map_of (st_sealed s) digest of
        Some existing \<Rightarrow>
          (guard_res (existing = body \<and> sha_bytes E existing = digest) (BlobDigestMismatchError None), s)
      | None \<Rightarrow> (Inr (), s\<lparr>st_sealed := dict_set digest body (st_sealed s)\<rparr>))"

definition last_sequence :: "CommittedEvent list \<Rightarrow> int" where
  "last_sequence existing = (if existing = [] then 0 else ce_sequence (last existing))"

definition last_digest :: "CommittedEvent list \<Rightarrow> string" where
  "last_digest existing = (if existing = [] then '''' else ce_event_digest (last existing))"

definition reservation_name :: "string \<Rightarrow> int \<Rightarrow> string \<Rightarrow> string" where
  "reservation_name run sq event_type = run @ '':'' @ show_int sq @ '':'' @ event_type"

definition highest_sequence :: "CommittedEvent list \<Rightarrow> EventReservation list \<Rightarrow> int" where
  "highest_sequence existing rows =
     (let ns = map ce_sequence existing @ map rv_sequence rows in
      if ns = [] then 0 else Max (set ns))"

text \<open>The reservation that \<open>_reserve_locked\<close> builds after its checks.\<close>

definition new_reservation ::
  "env \<Rightarrow> contract \<Rightarrow> string \<Rightarrow> CanonicalEvent \<Rightarrow> payload \<Rightarrow> CommittedEvent list \<Rightarrow> EventReservation list
     \<Rightarrow> int option \<Rightarrow> EventReservation res"
where
  "new_reservation E contract run ev payload existing rows sq =
     (let desired = (case sq of Some n \<Rightarrow> n | None \<Rightarrow> highest_sequence existing rows + 1);
          occupied = map rv_sequence (filter (\<lambda>r. rv_status r = RESERVED) rows)
      in
      bind_res (guard_res (\<not> desired \<le> last_sequence existing) (InvalidEventError (Some desired))) (\<lambda>_.
      bind_res (guard_res (desired \<notin> set occupied) (DuplicateSequenceError (Some desired))) (\<lambda>_.
      bind_res (validate_payload contract payload desired) (\<lambda>_.
      bind_res (pidx payload ''blob_digest'') (\<lambda>d.
      bind_res (pidx payload ''blob_bytes'') (\<lambda>n.
      bind_res (need (as_int n) TypeError) (\<lambda>len.
      Inr \<lparr>rv_sequence = desired, rv_previous_digest = last_digest existing,
           rv_run_id = run, rv_event_type = ev_type ev,
           rv_event_fingerprint = event_fingerprint E payload,
           rv_blob_digest = py_str E d, rv_blob_bytes = len,
           rv_reservation_id = reservation_name run desired (ev_type ev),
           rv_status = RESERVED\<rparr>)))))))"

definition reserve_locked ::
  "env \<Rightarrow> registry \<Rightarrow> CanonicalEvent \<Rightarrow> payload \<Rightarrow> CommittedEvent list \<Rightarrow> int option \<Rightarrow> EventReservation op"
where
  "reserve_locked E C ev payload existing sq s =
     (case bind_res (need (C (ev_type ev)) (InvalidEventError None)) (\<lambda>contract.
           bind_res (read_reservations E s) (\<lambda>rows.
           new_reservation E contract (st_run_id s) ev payload existing rows sq)) of
        Inl e \<Rightarrow> (Inl e, s)
      | Inr r \<Rightarrow>
          let s' = record_reservation r None s in
          (case st_hook s' ''after_reserve'' of
             Some e \<Rightarrow> (Inl e, s')
           | None \<Rightarrow> (Inr r, s')))"

definition event_base :: "EventReservation \<Rightarrow> CanonicalEvent \<Rightarrow> payload \<Rightarrow> string \<Rightarrow> string \<Rightarrow> payload" where
  "event_base r ev payload previous_digest run =
     [(''schema_version'', JInt CANONICAL_SCHEMA_VERSION), (''seq'', JInt (rv_sequence r)),
      (''prev_digest'', JStr previous_digest), (''event_type'', JStr (ev_type ev)),
      (''run_id'', JStr run), (''payload'', JObj payload)]"

definition check_commit ::
  "env \<Rightarrow> EventReservation \<Rightarrow> CanonicalEvent \<Rightarrow> payload \<Rightarrow> CommittedEvent list \<Rightarrow> store \<Rightarrow> unit res"
where
  "check_commit E r ev payload existing s =
     (let at_sequence = Some (rv_sequence r) in
      if rv_status r \<noteq> RESERVED then Inl (InvalidEventError at_sequence)
      else if rv_sequence r \<noteq> last_sequence existing + 1 then Inl (SequenceGapError (rv_sequence r))
      else if rv_run_id r \<noteq> st_run_id s \<or> rv_event_type r \<noteq> ev_type ev
      then Inl (InvalidEventError at_sequence)
      else if rv_event_fingerprint r \<noteq> event_fingerprint E payload
      then Inl (InvalidEventError at_sequence)
      else
        bind_res (pidx payload ''blob_digest'') (\<lambda>d.
        bind_res (pidx payload ''blob_bytes'') (\<lambda>n.
        guard_res (JStr (rv_blob_digest r) = d \<and> py_eq_int n (rv_blob_bytes r))
          (BlobDigestMismatchError at_sequence))))"

definition commit_locked ::
  "env \<Rightarrow> EventReservation \<Rightarrow> CanonicalEvent \<Rightarrow> payload \<Rightarrow> string \<Rightarrow> CommittedEvent list
     \<Rightarrow> CommittedEvent op"
where
  "commit_locked E r ev payload body existing s =
     (case check_commit E r ev payload existing s of
        Inl e \<Rightarrow> (Inl e, s)
      | Inr _ \<Rightarrow>
        let previous_digest = last_digest existing;
            base = event_base r ev payload previous_digest (st_run_id s);
            event_digest = digest_json E base;
            envelope = base @ [(''event_digest'', JStr event_digest)]
        in (case seal_blob E (rv_blob_digest r) body s of
              (Inl e, s1) \<Rightarrow> (Inl e, s1)
            | (Inr _, s1) \<Rightarrow>
              (case st_hook s1 ''before_append'' of
                 Some e \<Rightarrow> (Inl e, s1)
               | None \<Rightarrow>
                 let s2 = s1\<lparr>st_events := append_durable (st_events s1) envelope\<rparr> in
                 (case st_hook s2 ''after_append'' of
                    Some e \<Rightarrow> (Inl e, s2)
                  | None \<Rightarrow>
                    (Inr \<lparr>ce_sequence = rv_sequence r, ce_previous_digest = previous_digest,
                          ce_event_digest = event_digest, ce_event_type = ev_type ev,
                          ce_payload = payload, ce_envelope = envelope,
                          ce_blob_digest = rv_blob_digest r, ce_blob_bytes = rv_blob_bytes r,
                          ce_body = body\<rparr>,
                     record_reservation r (Some COMMITTED) s2)))))"

section \<open>The public operations\<close>

text \<open>The redacted body and the redacted payload that name it.\<close>

definition prepared :: "env \<Rightarrow> CanonicalEvent \<Rightarrow> string \<Rightarrow> store \<Rightarrow> string \<times> payload" where
  "prepared E ev body s =
     (let body_bytes = st_redactor s body in
      (body_bytes,
       redact_dict (st_redactor s) (ev_payload ev (sha_bytes E body_bytes) (int (length body_bytes)))))"

text \<open>The common tail of \<open>append\<close> and \<open>compare_and_append\<close>: refuse a sealed Run, return an event of
  the same identity, or reserve and commit.\<close>

definition append_new ::
  "env \<Rightarrow> registry \<Rightarrow> CanonicalEvent \<Rightarrow> payload \<Rightarrow> string \<Rightarrow> CommittedEvent list \<Rightarrow> CommittedEvent op"
where
  "append_new E C ev payload body existing s =
     (case bind_res (refuse_after_terminal existing) (\<lambda>_. find_identity C existing ev payload) of
        Inl e \<Rightarrow> (Inl e, s)
      | Inr (Some prior) \<Rightarrow> recover_and_return E prior s
      | Inr None \<Rightarrow>
        (case find_reservation_for_payload E ev payload s of
           Inl e \<Rightarrow> (Inl e, s)
         | Inr (Some r) \<Rightarrow> commit_locked E r ev payload body existing s
         | Inr None \<Rightarrow>
           (case reserve_locked E C ev payload existing None s of
              (Inl e, s') \<Rightarrow> (Inl e, s')
            | (Inr r, s') \<Rightarrow> commit_locked E r ev payload body existing s')))"

definition append :: "env \<Rightarrow> registry \<Rightarrow> CanonicalEvent \<Rightarrow> string \<Rightarrow> CommittedEvent op" where
  "append E C ev body s =
     (let (body_bytes, payload) = prepared E ev body s in
      case read_verified E C s of
        Inl e \<Rightarrow> (Inl e, s)
      | Inr existing \<Rightarrow>
        (case find_exact_identity existing ev payload of
           Some prior \<Rightarrow> recover_and_return E prior s
         | None \<Rightarrow> append_new E C ev payload body_bytes existing s))"

definition pget_or :: "payload \<Rightarrow> string \<Rightarrow> json \<Rightarrow> json" where
  "pget_or p k d = (case map_of p k of None \<Rightarrow> d | Some v \<Rightarrow> v)"

definition projection_of :: "payload \<Rightarrow> CommittedEvent option \<Rightarrow> payload" where
  "projection_of payload observed =
     (case observed of
        None \<Rightarrow>
          [(''event_id'', JStr ''genesis''), (''event_digest'', JStr ''''),
           (''profile_digest'', pget_or payload ''profile_digest'' (JStr '''')),
           (''snapshot_digest'', JStr '''')]
      | Some c \<Rightarrow>
          [(''event_id'', pget_or (ce_payload c) ''event_id'' (JStr '''')),
           (''event_digest'', JStr (ce_event_digest c)),
           (''profile_digest'', pget_or (ce_payload c) ''profile_digest'' (JStr '''')),
           (''snapshot_digest'', pget_or (ce_payload c) ''snapshot_digest'' (JStr ''''))])"

definition latest_matching ::
  "CommittedEvent list \<Rightarrow> string \<Rightarrow> payload \<Rightarrow> CommittedEvent option"
where
  "latest_matching existing event_type wanted =
     List.find (\<lambda>c. ce_event_type c = event_type
                  \<and> list_all (\<lambda>(k, v). canon (pget (ce_payload c) k) = canon v) wanted)
       (rev existing)"

definition compare_and_append ::
  "env \<Rightarrow> registry \<Rightarrow> CanonicalEvent \<Rightarrow> string \<Rightarrow> string \<Rightarrow> payload \<Rightarrow> payload
     \<Rightarrow> CompareAndAppendResult op"
where
  "compare_and_append E C ev body latest_event_type latest_payload expected_projection s =
     (let (body_bytes, payload) = prepared E ev body s in
      case read_verified E C s of
        Inl e \<Rightarrow> (Inl e, s)
      | Inr existing \<Rightarrow>
        (case find_exact_identity existing ev payload of
           Some prior \<Rightarrow>
             (case recover_and_return E prior s of
                (Inl e, s') \<Rightarrow> (Inl e, s')
              | (Inr c, s') \<Rightarrow> (Inr \<lparr>ca_committed = Some c, ca_observed = Some c\<rparr>, s'))
         | None \<Rightarrow>
           let observed = latest_matching existing latest_event_type latest_payload in
           if \<not> same_dict (projection_of payload observed) expected_projection
           then (Inr \<lparr>ca_committed = None, ca_observed = observed\<rparr>, s)
           else
             (case append_new E C ev payload body_bytes existing s of
                (Inl e, s') \<Rightarrow> (Inl e, s')
              | (Inr c, s') \<Rightarrow> (Inr \<lparr>ca_committed = Some c, ca_observed = observed\<rparr>, s'))))"

definition reservation_from_event :: "env \<Rightarrow> CommittedEvent \<Rightarrow> store \<Rightarrow> EventReservation res" where
  "reservation_from_event E c s =
     bind_res (reservation_for_sequence E (ce_sequence c) s) (\<lambda>found.
     Inr (case found of
            Some r \<Rightarrow> r
          | None \<Rightarrow>
              \<lparr>rv_sequence = ce_sequence c, rv_previous_digest = ce_previous_digest c,
               rv_run_id = st_run_id s, rv_event_type = ce_event_type c,
               rv_event_fingerprint = event_fingerprint E (ce_payload c),
               rv_blob_digest = ce_blob_digest c, rv_blob_bytes = ce_blob_bytes c,
               rv_reservation_id = reservation_name (st_run_id s) (ce_sequence c) (ce_event_type c),
               rv_status = COMMITTED\<rparr>))"

definition lowercase_sha256 :: "string \<Rightarrow> bool" where
  "lowercase_sha256 d = (length d = 64 \<and> list_all (\<lambda>c. c \<in> set ''0123456789abcdef'') d)"

definition recover_and_describe :: "env \<Rightarrow> CommittedEvent \<Rightarrow> EventReservation op" where
  "recover_and_describe E prior s =
     (case recover_reservation_locked E (ce_sequence prior) s of
        (Inl e, s') \<Rightarrow> (Inl e, s')
      | (Inr _, s') \<Rightarrow> (reservation_from_event E prior s', s'))"

definition reserve ::
  "env \<Rightarrow> registry \<Rightarrow> CanonicalEvent \<Rightarrow> string \<Rightarrow> int \<Rightarrow> int option \<Rightarrow> EventReservation op"
where
  "reserve E C ev blob_digest blob_bytes sq s =
     (if \<not> lowercase_sha256 blob_digest then (Inl ValueError, s)
      else if blob_bytes < 0 then (Inl ValueError, s)
      else
        let payload = redact_dict (st_redactor s) (ev_payload ev blob_digest blob_bytes) in
        case read_verified E C s of
          Inl e \<Rightarrow> (Inl e, s)
        | Inr existing \<Rightarrow>
          (case find_exact_identity existing ev payload of
             Some prior \<Rightarrow> recover_and_describe E prior s
           | None \<Rightarrow>
             (case find_reservation_for_payload E ev payload s of
                Inl e \<Rightarrow> (Inl e, s)
              | Inr (Some r) \<Rightarrow> (Inr r, s)
              | Inr None \<Rightarrow>
                (case bind_res (refuse_after_terminal existing) (\<lambda>_. find_identity C existing ev payload) of
                   Inl e \<Rightarrow> (Inl e, s)
                 | Inr (Some prior) \<Rightarrow> recover_and_describe E prior s
                 | Inr None \<Rightarrow> reserve_locked E C ev payload existing sq s))))"

definition commit ::
  "env \<Rightarrow> registry \<Rightarrow> EventReservation \<Rightarrow> CanonicalEvent \<Rightarrow> string \<Rightarrow> CommittedEvent op"
where
  "commit E C r ev body s =
     (let (body_bytes, payload) = prepared E ev body s in
      case read_verified E C s of
        Inl e \<Rightarrow> (Inl e, s)
      | Inr existing \<Rightarrow>
        (case find_exact_identity existing ev payload of
           Some prior \<Rightarrow> recover_and_return E prior s
         | None \<Rightarrow>
           (case bind_res (refuse_after_terminal existing) (\<lambda>_. find_identity C existing ev payload) of
              Inl e \<Rightarrow> (Inl e, s)
            | Inr (Some prior) \<Rightarrow> recover_and_return E prior s
            | Inr None \<Rightarrow> commit_locked E r ev payload body_bytes existing s)))"

definition terminal_snapshot :: "env \<Rightarrow> registry \<Rightarrow> store \<Rightarrow> TerminalEventStoreSnapshot res" where
  "terminal_snapshot E C s =
     bind_res (read_verified E C s) (\<lambda>events.
     let records = map (\<lambda>c. pget (ce_payload c) ''record'') events in
     if events = [] \<or> hd records \<noteq> JStr ''run-open'' then Inl RunNotTerminalError
     else if last records \<noteq> JStr ''run-close'' \<or> count_list records (JStr ''run-open'') \<noteq> 1
             \<or> count_list records (JStr ''run-close'') \<noteq> 1
     then Inl RunNotTerminalError
     else Inr \<lparr>ts_run_id = st_run_id s, ts_events = events,
               ts_chain_head = ce_event_digest (last events)\<rparr>)"

definition empty_store :: "string \<Rightarrow> (string \<Rightarrow> string) \<Rightarrow> (string \<Rightarrow> exn option) \<Rightarrow> store" where
  "empty_store run red hook =
     \<lparr>st_run_id = run, st_events = \<lparr>lines = [], torn = False\<rparr>,
      st_reservations = \<lparr>lines = [], torn = False\<rparr>, st_sealed = [],
      st_redactor = red, st_hook = hook\<rparr>"

end
