(* ===== verification/Event_Store_Laws.thy ===== *)
theory Event_Store_Laws
  imports Event_Store
begin

text \<open>
  What the canonical event store guarantees: the writer and the verifier agree, an append extends the
  verified chain by one event or returns the one already there, a crash at any hook followed by the
  same append commits exactly once, a closed Run accepts nothing new, and a chain head commits to the
  whole stream.
\<close>

section \<open>Canonical forms\<close>

lemma map_of_filter_key: "map_of (filter (\<lambda>x. fst x = k) xs) k = map_of xs k"
  by (induction xs) auto

lemma map_of_sort_key [simp]: "map_of (sort_key fst xs) k = map_of xs k"
  by (metis (mono_tags) map_of_filter_key sort_key_stable)

lemma insort_map_prod:
  "insort_key fst (map_prod id g x) (map (map_prod id g) xs) = map (map_prod id g) (insort_key fst x xs)"
  by (induction xs) (auto simp: map_prod_def split: prod.splits)

lemma sort_key_map_prod:
  "sort_key fst (map (map_prod id g) xs) = map (map_prod id g) (sort_key fst xs)"
  by (induction xs) (simp_all add: insort_map_prod [unfolded id_def] id_def)

lemma sort_key_sorted: "sorted (map f xs) \<Longrightarrow> sort_key f xs = xs"
  by (induction xs) (simp_all add: insort_is_Cons)

lemma map_of_map_prod: "map_of (map (map_prod id g) xs) k = map_option g (map_of xs k)"
  by (induction xs) auto

lemma map_of_canon_dict [simp]: "map_of (canon_dict p) k = map_option canon (map_of p k)"
  by (simp add: canon_dict_def map_of_map_prod)

lemma pget_canon_dict [simp]: "pget (canon_dict p) k = canon (pget p k)"
  by (cases "map_of p k") (simp_all add: pget_def)

lemma canon_JObj: "canon (JObj p) = JObj (canon_dict p)"
  by (simp add: canon_dict_def)

lemma canon_canon [simp]: "canon (canon v) = canon v"
proof (induction v)
  case (JArr xs)
  then show ?case by (simp cong: map_cong)
next
  case (JObj kvs)
  have "map (map_prod id canon) (map (map_prod id canon) kvs) = map (map_prod id canon) kvs"
    using JObj by (force simp: comp_def map_prod_def Basic_BNFs.snds.simps split: prod.splits)
  then show ?case
    by (simp add: sort_key_map_prod [symmetric] sort_key_sorted del: map_map)
qed simp_all

lemma canon_dict_idem [simp]: "canon_dict (canon_dict p) = canon_dict p"
  using canon_canon [of "JObj p"] by (simp only: canon_JObj json.inject)

lemma same_dict_iff: "same_dict a b \<longleftrightarrow> canon_dict a = canon_dict b"
  by (simp only: same_dict_def canon_JObj json.inject)

lemma same_dict_canon [simp]: "same_dict (canon_dict a) b \<longleftrightarrow> same_dict a b"
  by (simp add: same_dict_iff)

lemma same_dict_pget: "same_dict a b \<Longrightarrow> canon (pget a k) = canon (pget b k)"
  by (metis pget_canon_dict same_dict_iff)

lemma canon_dict_filter:
  "canon_dict (filter (\<lambda>kv. fst kv \<noteq> k) p) = filter (\<lambda>kv. fst kv \<noteq> k) (canon_dict p)"
  by (simp add: canon_dict_def filter_sort filter_map comp_def)

lemma digest_json_canon [simp]: "digest_json E (canon_dict p) = digest_json E p"
  by (simp add: digest_json_def canon_JObj del: canon.simps)

lemma canon_eq_iff [simp]:
  "canon v = JStr t \<longleftrightarrow> v = JStr t" "canon v = JInt n \<longleftrightarrow> v = JInt n"
  "canon v = JNull \<longleftrightarrow> v = JNull"
  by (cases v; simp)+

lemma as_canon [simp]:
  "as_int (canon v) = as_int v" "as_str (canon v) = as_str v" "py_int_key (canon v) = py_int_key v"
  "py_eq_int (canon v) n = py_eq_int v n" "as_obj (canon v) = map_option canon_dict (as_obj v)"
  "is_str (canon v) = is_str v" "strict_int (canon v) = strict_int v"
  by (cases v; simp add: py_eq_int_def canon_dict_def)+

section \<open>The reservation stream\<close>

lemma read_status_value [simp]: "read_status (JStr (status_value st)) = Some st"
  by (cases st) (simp_all add: read_status_def)

lemma parse_as_dict [simp]:
  "parse_reservation E n (Text (canon (JObj (as_dict r)))) = Inr r"
  unfolding canon_JObj
  by (simp add: parse_reservation_def Let_def as_dict_def pget_def reservation_fields_def
      py_eq_int_def py_str_def CANONICAL_SCHEMA_VERSION_def)

text \<open>What the scan knows of the rows it has read: the latest row of each id, the id that owns each
  sequence, and that every row belongs to this Run with a positive sequence.\<close>

definition reserved_first :: "EventReservation list \<Rightarrow> bool" where
  "reserved_first rows =
     sorted_wrt (\<lambda>q r. rv_reservation_id q = rv_reservation_id r \<longrightarrow> rv_status r \<noteq> RESERVED) rows"

definition one_owner :: "EventReservation list \<Rightarrow> bool" where
  "one_owner rows =
     (\<forall>q \<in> set rows. \<forall>r \<in> set rows. rv_sequence q = rv_sequence r \<longrightarrow> rv_reservation_id q = rv_reservation_id r)"

lemma one_ownerD:
  "one_owner rows \<Longrightarrow> q \<in> set rows \<Longrightarrow> r \<in> set rows \<Longrightarrow> rv_sequence q = rv_sequence r
     \<Longrightarrow> rv_reservation_id q = rv_reservation_id r"
  unfolding one_owner_def by blast

lemma one_owner_snoc:
  assumes "one_owner rows" "\<And>q. q \<in> set rows \<Longrightarrow> rv_sequence q = rv_sequence r \<Longrightarrow> rv_reservation_id q = rv_reservation_id r"
  shows "one_owner (rows @ [r])"
proof -
  have "rv_reservation_id a = rv_reservation_id b"
    if "a \<in> set rows \<or> a = r" "b \<in> set rows \<or> b = r" "rv_sequence a = rv_sequence b" for a b
    using that assms(2) one_ownerD [OF assms(1)] by metis
  then show ?thesis unfolding one_owner_def by (metis rotate1.simps(2) set_ConsD set_rotate1)
qed

definition scan_inv :: "string \<Rightarrow> res_scan \<Rightarrow> bool" where
  "scan_inv run sc =
     ((\<forall>i. map_of (sc_latest sc) i = List.find (\<lambda>r. rv_reservation_id r = i) (rev (sc_rows sc)))
      \<and> (\<forall>q. map_of (sc_owner sc) q =
            map_option rv_reservation_id (List.find (\<lambda>r. rv_sequence r = q) (rev (sc_rows sc))))
      \<and> (\<forall>r \<in> set (sc_rows sc). rv_run_id r = run \<and> 1 \<le> rv_sequence r)
      \<and> reserved_first (sc_rows sc)
      \<and> one_owner (sc_rows sc))"

lemma check_reservation_ok:
  "check_reservation run latest owner r = Inr u \<Longrightarrow> rv_run_id r = run \<and> 1 \<le> rv_sequence r"
  by (auto simp: check_reservation_def Let_def split: if_splits option.splits)

lemma check_reservation_known:
  "check_reservation run latest owner r = Inr u \<Longrightarrow> map_of latest (rv_reservation_id r) = Some q
     \<Longrightarrow> rv_status r \<noteq> RESERVED"
  by (auto simp: check_reservation_def Let_def split: if_splits)

lemma check_reservation_owner:
  "check_reservation run latest owner r = Inr u \<Longrightarrow> map_of owner (rv_sequence r) = Some i
     \<Longrightarrow> i = rv_reservation_id r
       \<or> (\<exists>q. map_of latest (rv_reservation_id r) = Some q \<and> rv_sequence q = rv_sequence r)"
  by (auto simp: check_reservation_def Let_def split: if_splits option.splits)

lemma find_rev_Some_ex: "x \<in> set xs \<Longrightarrow> P x \<Longrightarrow> \<exists>y. List.find P (rev xs) = Some y"
  using find_None_iff [of P "rev xs"] by auto

interpretation scan: replayed "scan_row E run" scan_init "scan_inv run" for E run
proof unfold_locales
  show "scan_inv run scan_init" by (simp add: scan_inv_def scan_init_def reserved_first_def one_owner_def)
next
  fix sc l sc'
  assume inv: "scan_inv run sc" and row: "scan_row E run sc l = Inr sc'"
  obtain r where r: "check_reservation run (sc_latest sc) (sc_owner sc) r = Inr ()"
    "sc' = \<lparr>sc_rows = sc_rows sc @ [r], sc_latest = dict_set (rv_reservation_id r) r (sc_latest sc),
           sc_owner = dict_set (rv_sequence r) (rv_reservation_id r) (sc_owner sc)\<rparr>"
    using row by (auto simp: scan_row_def bind_res_Inr_iff)
  have "rv_status r \<noteq> RESERVED" if "q \<in> set (sc_rows sc)" "rv_reservation_id q = rv_reservation_id r" for q
    using check_reservation_known [OF r(1)] inv find_rev_Some_ex [OF that(1)] that(2)
    by (fastforce simp: scan_inv_def)
  then have first: "reserved_first (sc_rows sc @ [r])"
    using inv by (auto simp: scan_inv_def reserved_first_def sorted_wrt_append)
  have "rv_reservation_id q = rv_reservation_id r"
    if q: "q \<in> set (sc_rows sc)" "rv_sequence q = rv_sequence r" for q
  proof -
    obtain x where x: "List.find (\<lambda>x. rv_sequence x = rv_sequence r) (rev (sc_rows sc)) = Some x"
      using find_rev_Some_ex [OF q(1), of "\<lambda>x. rv_sequence x = rv_sequence r"] q(2) by blast
    then have x': "x \<in> set (sc_rows sc)" "rv_sequence x = rv_sequence r" using find_Some_set by fastforce+
    have owner: "one_owner (sc_rows sc)" using inv by (simp add: scan_inv_def)
    have "map_of (sc_owner sc) (rv_sequence r) = Some (rv_reservation_id x)"
      using inv x by (simp add: scan_inv_def)
    from check_reservation_owner [OF r(1) this] show ?thesis
    proof (elim disjE exE conjE)
      assume "rv_reservation_id x = rv_reservation_id r"
      moreover have "rv_reservation_id q = rv_reservation_id x"
        using one_ownerD [OF owner q(1) x'(1)] q(2) x'(2) by simp
      ultimately show ?thesis by simp
    next
      fix y assume y: "map_of (sc_latest sc) (rv_reservation_id r) = Some y" "rv_sequence y = rv_sequence r"
      then have "y \<in> set (sc_rows sc)" "rv_reservation_id y = rv_reservation_id r"
        using inv find_Some_set [of "\<lambda>q. rv_reservation_id q = rv_reservation_id r" "rev (sc_rows sc)" y]
        by (simp_all add: scan_inv_def)
      moreover from this have "rv_reservation_id q = rv_reservation_id y"
        using one_ownerD [OF owner q(1)] q(2) y(2) by simp
      ultimately show ?thesis by simp
    qed
  qed
  then have "one_owner (sc_rows sc @ [r])"
    using inv by (intro one_owner_snoc) (simp_all add: scan_inv_def)
  with first show "scan_inv run sc'"
    using inv r(2) check_reservation_ok [OF r(1)] by (simp add: scan_inv_def)
qed

definition well_named :: "string \<Rightarrow> EventReservation list \<Rightarrow> bool" where
  "well_named run rows =
     (\<forall>r \<in> set rows. rv_reservation_id r = reservation_name run (rv_sequence r) (rv_event_type r))"

lemma read_reservations_scan:
  assumes "read_reservations E s = Inr rows"
  obtains sc where "replay (scan_row E (st_run_id s)) scan_init (lines (st_reservations s)) = Inr sc"
    "sc_rows sc = rows" "scan_inv (st_run_id s) sc" "\<not> torn (st_reservations s)"
  using assms scan.inv_replay
  by (auto simp: read_reservations_def bind_res_Inr_iff split: if_splits)

lemma read_reservations_rows:
  "read_reservations E s = Inr rows \<Longrightarrow> r \<in> set rows \<Longrightarrow> rv_run_id r = st_run_id s \<and> 1 \<le> rv_sequence r"
  by (erule read_reservations_scan) (auto simp: scan_inv_def)

lemma read_reservations_reserved_first: "read_reservations E s = Inr rows \<Longrightarrow> reserved_first rows"
  by (erule read_reservations_scan) (auto simp: scan_inv_def)

lemma same_sequence_same_id:
  "read_reservations E s = Inr rows \<Longrightarrow> q \<in> set rows \<Longrightarrow> r \<in> set rows \<Longrightarrow> rv_sequence q = rv_sequence r
     \<Longrightarrow> rv_reservation_id q = rv_reservation_id r"
  by (erule read_reservations_scan) (metis one_ownerD scan_inv_def)

lemma reservation_name_inj:
  assumes "reservation_name run m t = reservation_name run n t'" "1 \<le> m" "1 \<le> n"
  shows "m = n \<and> t = t'"
proof -
  have "show_nat (nat m) @ CHR '':'' # t = show_nat (nat n) @ CHR '':'' # t'"
    using assms by (simp add: reservation_name_def show_int_def)
  moreover have "\<not> is_digit CHR '':''" by (simp add: is_digit_def)
  ultimately have "nat m = nat n \<and> t = t'" by (rule show_nat_sep_inj)
  then show ?thesis using assms(2,3) by auto
qed

text \<open>A row that the checks accept is read back as the next row.\<close>

lemma read_record_reservation:
  assumes "read_reservations E s = Inr rows"
    and sc: "replay (scan_row E (st_run_id s)) scan_init (lines (st_reservations s)) = Inr sc"
    and ok: "check_reservation (st_run_id s) (sc_latest sc) (sc_owner sc) (r\<lparr>rv_status := st\<rparr>) = Inr ()"
  shows "read_reservations E (record_reservation r (Some st) s) = Inr (rows @ [r\<lparr>rv_status := st\<rparr>])"
  using assms
  by (auto simp: read_reservations_def record_reservation_def append_durable_def replay_append
      bind_res_Inr_iff scan_row_def simp del: canon.simps split: if_splits)

lemma record_reservation_None [simp]:
  "record_reservation r None s = record_reservation r (Some (rv_status r)) s"
  by (simp add: record_reservation_def)

lemma find_rev_None_notin: "List.find P (rev xs) = None \<longleftrightarrow> (\<forall>x \<in> set xs. \<not> P x)"
  by (auto simp: find_None_iff)

lemma read_fresh_reservation:
  assumes rows: "read_reservations E s = Inr rows" "well_named (st_run_id s) rows"
    and r: "rv_status r = RESERVED" "rv_run_id r = st_run_id s" "1 \<le> rv_sequence r"
      "rv_reservation_id r = reservation_name (st_run_id s) (rv_sequence r) (rv_event_type r)"
      "\<forall>q \<in> set rows. rv_sequence q \<noteq> rv_sequence r"
  shows "read_reservations E (record_reservation r None s) = Inr (rows @ [r])"
proof -
  obtain sc where sc: "replay (scan_row E (st_run_id s)) scan_init (lines (st_reservations s)) = Inr sc"
    "sc_rows sc = rows" "scan_inv (st_run_id s) sc"
    using rows(1) by (rule read_reservations_scan)
  have "rv_reservation_id q \<noteq> rv_reservation_id r" if "q \<in> set rows" for q
    using that rows(2) r(3-5) read_reservations_rows [OF rows(1) that]
      reservation_name_inj [of "st_run_id s" "rv_sequence q" "rv_event_type q" "rv_sequence r"]
    by (auto simp: well_named_def)
  then have "map_of (sc_latest sc) (rv_reservation_id r) = None"
    using sc(2,3) by (simp add: scan_inv_def find_rev_None_notin)
  moreover have "map_of (sc_owner sc) (rv_sequence r) = None"
    using sc(2,3) r(5) by (simp add: scan_inv_def find_rev_None_notin)
  ultimately have "check_reservation (st_run_id s) (sc_latest sc) (sc_owner sc) r = Inr ()"
    using r by (simp add: check_reservation_def guard_res_def)
  moreover have "r\<lparr>rv_status := RESERVED\<rparr> = r" using r(1) by (cases r) simp
  ultimately show ?thesis
    using read_record_reservation [OF rows(1) sc(1), where r = r and st = RESERVED] r(1)
    by (simp only: record_reservation_None)
qed

lemma read_closing_reservation:
  assumes rows: "read_reservations E s = Inr rows"
    and r: "rv_status r = RESERVED" "List.find (\<lambda>q. rv_reservation_id q = rv_reservation_id r) (rev rows) = Some r"
    and st: "st = COMMITTED \<or> st = RECOVERED"
  shows "read_reservations E (record_reservation r (Some st) s) = Inr (rows @ [r\<lparr>rv_status := st\<rparr>])"
proof -
  obtain sc where sc: "replay (scan_row E (st_run_id s)) scan_init (lines (st_reservations s)) = Inr sc"
    "sc_rows sc = rows" "scan_inv (st_run_id s) sc"
    using rows by (rule read_reservations_scan)
  have "r \<in> set rows" using r(2) find_Some_set by fastforce
  then have "rv_run_id r = st_run_id s" "1 \<le> rv_sequence r"
    using rows read_reservations_rows by blast+
  moreover have "map_of (sc_latest sc) (rv_reservation_id r) = Some r"
    using sc(2,3) r(2) by (simp add: scan_inv_def)
  ultimately have "check_reservation (st_run_id s) (sc_latest sc) (sc_owner sc) (r\<lparr>rv_status := st\<rparr>) = Inr ()"
    using r(1) st by (auto simp: check_reservation_def guard_res_def)
  then show ?thesis using read_record_reservation [OF rows sc(1)] by simp
qed

section \<open>The verified chain\<close>

definition envelope_of :: "env \<Rightarrow> EventReservation \<Rightarrow> CanonicalEvent \<Rightarrow> payload \<Rightarrow> string \<Rightarrow> string \<Rightarrow> payload" where
  "envelope_of E r ev payload prev run =
     (let base = event_base r ev payload prev run in base @ [(''event_digest'', JStr (digest_json E base))])"

lemma pget_envelope_of [simp]:
  "pget (envelope_of E r ev payload prev run) ''schema_version'' = JInt CANONICAL_SCHEMA_VERSION"
  "pget (envelope_of E r ev payload prev run) ''seq'' = JInt (rv_sequence r)"
  "pget (envelope_of E r ev payload prev run) ''prev_digest'' = JStr prev"
  "pget (envelope_of E r ev payload prev run) ''event_type'' = JStr (ev_type ev)"
  "pget (envelope_of E r ev payload prev run) ''run_id'' = JStr run"
  "pget (envelope_of E r ev payload prev run) ''payload'' = JObj payload"
  "pget (envelope_of E r ev payload prev run) ''event_digest''
     = JStr (digest_json E (event_base r ev payload prev run))"
  by (simp_all add: envelope_of_def event_base_def pget_def Let_def)

lemma digest_envelope_of:
  "digest_json E (filter (\<lambda>kv. fst kv \<noteq> ''event_digest'') (canon_dict (envelope_of E r ev payload prev run)))
     = digest_json E (event_base r ev payload prev run)"
proof -
  have "filter (\<lambda>kv. fst kv \<noteq> ''event_digest'') (envelope_of E r ev payload prev run)
      = event_base r ev payload prev run"
    by (simp add: envelope_of_def event_base_def Let_def)
  then show ?thesis by (metis canon_dict_filter digest_json_canon)
qed

text \<open>The writer's envelope passes the verifier.\<close>

lemma verify_written_line:
  assumes "rv_sequence r = n" "C (ev_type ev) = Some k" "validate_payload k (canon_dict payload) n = Inr u"
    "as_str (pget payload ''blob_digest'') = Some d" "as_int (pget payload ''blob_bytes'') = Some m"
  shows "verify_line E C run n prev b (Text (canon (JObj (envelope_of E r ev payload prev run)))) =
     Inr \<lparr>ce_sequence = n, ce_previous_digest = prev,
          ce_event_digest = digest_json E (event_base r ev payload prev run),
          ce_event_type = ev_type ev, ce_payload = canon_dict payload,
          ce_envelope = canon_dict (envelope_of E r ev payload prev run),
          ce_blob_digest = d, ce_blob_bytes = m, ce_body = ''''\<rparr>"
  using assms
  by (simp add: verify_line_def canon_JObj digest_envelope_of py_eq_int_def del: canon.simps)

lemma verify_line_InrD:
  assumes "verify_line E C run n prev b l = Inr c"
  shows "ce_sequence c = n \<and> ce_previous_digest c = prev \<and> ce_body c = '''' \<and> (\<exists>v. l = Text (JObj v)
     \<and> ce_envelope c = v \<and> pget v ''prev_digest'' = JStr prev
     \<and> pget v ''event_digest'' = JStr (ce_event_digest c)
     \<and> digest_json E (filter (\<lambda>kv. fst kv \<noteq> ''event_digest'') v) = ce_event_digest c
     \<and> (\<forall>b'. verify_line E C run n prev b' l = Inr c))"
proof (cases l)
  case (Text v)
  then obtain p where v: "v = JObj p"
    using assms by (cases v) (auto simp: verify_line_def)
  have indep: "verify_line E C run n prev b' l = Inr c" for b'
    using assms Text by (simp add: verify_line_def)
  have str: "as_str w = Some t \<longleftrightarrow> w = JStr t" for w t
    by (cases w) auto
  have "ce_sequence c = n \<and> ce_previous_digest c = prev \<and> ce_body c = [] \<and> ce_envelope c = p
     \<and> pget p ''prev_digest'' = JStr prev \<and> pget p ''event_digest'' = JStr (ce_event_digest c)
     \<and> digest_json E (filter (\<lambda>kv. fst kv \<noteq> ''event_digest'') p) = ce_event_digest c"
    using assms Text v
    by (auto simp: verify_line_def str bind_res_Inr_iff)
  then show ?thesis using indep Text v by simp
qed (use assms in \<open>auto simp: verify_line_def\<close>)

lemma verify_chain_snoc:
  assumes "verify_chain E C run n prev ls = Inr cs"
  shows "verify_chain E C run n prev (ls @ [l]) =
     bind_res (verify_line E C run (n + int (length cs)) (if cs = [] then prev else ce_event_digest (last cs)) True l)
       (\<lambda>c. Inr (cs @ [c]))"
  using assms
proof (induction ls arbitrary: n prev cs)
  case Nil
  then show ?case by simp
next
  case (Cons x xs)
  then obtain c cs' where c: "verify_line E C run n prev (xs = []) x = Inr c"
    "verify_chain E C run (n + 1) (ce_event_digest c) xs = Inr cs'" "cs = c # cs'"
    by (auto simp: bind_res_Inr_iff)
  have "verify_line E C run n prev False x = Inr c"
    using verify_line_InrD [OF c(1)] by blast
  then show ?case
    using Cons.IH [OF c(2)] c(3)
    by (cases cs') (auto simp: bind_res_def add.commute add.left_commute split: sum.splits)
qed

lemma verify_chain_length: "verify_chain E C run n prev ls = Inr cs \<Longrightarrow> length cs = length ls"
  by (induction ls arbitrary: n prev cs) (auto simp: bind_res_Inr_iff)

lemma verify_chain_nth:
  assumes "verify_chain E C run n prev ls = Inr cs" "i < length cs"
  shows "ce_sequence (cs ! i) = n + int i \<and> ls ! i = Text (JObj (ce_envelope (cs ! i)))
     \<and> ce_previous_digest (cs ! i) = (if i = 0 then prev else ce_event_digest (cs ! (i - 1)))
     \<and> digest_json E (filter (\<lambda>kv. fst kv \<noteq> ''event_digest'') (ce_envelope (cs ! i))) = ce_event_digest (cs ! i)
     \<and> pget (ce_envelope (cs ! i)) ''prev_digest'' = JStr (ce_previous_digest (cs ! i))
     \<and> pget (ce_envelope (cs ! i)) ''event_digest'' = JStr (ce_event_digest (cs ! i))"
  using assms
proof (induction ls arbitrary: n prev cs i)
  case (Cons x xs)
  then obtain c cs' where c: "verify_line E C run n prev (xs = []) x = Inr c"
    "verify_chain E C run (n + 1) (ce_event_digest c) xs = Inr cs'" "cs = c # cs'"
    by (auto simp: bind_res_Inr_iff)
  show ?case
    using verify_line_InrD [OF c(1)] Cons.IH [OF c(2), of "i - 1"] Cons.prems(2) c(3)
    by (cases i) (auto simp: nth_Cons' split: if_splits)
qed simp

lemma verify_chain_prefix:
  assumes "verify_chain E C run n prev (ls @ ms) = Inr cs"
  shows "\<exists>us vs. cs = us @ vs \<and> verify_chain E C run n prev ls = Inr us \<and> length vs = length ms"
  using assms
proof (induction ls arbitrary: n prev cs)
  case Nil
  then show ?case by (auto dest: verify_chain_length)
next
  case (Cons x xs)
  then obtain c cs' where c: "verify_line E C run n prev (xs @ ms = []) x = Inr c"
    "verify_chain E C run (n + 1) (ce_event_digest c) (xs @ ms) = Inr cs'" "cs = c # cs'"
    by (auto simp: bind_res_Inr_iff)
  have "verify_line E C run n prev (xs = []) x = Inr c"
    using verify_line_InrD [OF c(1)] by blast
  with Cons.IH [OF c(2)] c(3) show ?case by fastforce
qed

subsection \<open>A chain head commits to the stream\<close>

definition unsigned :: "CommittedEvent \<Rightarrow> payload" where
  "unsigned c = canon_dict (filter (\<lambda>kv. fst kv \<noteq> ''event_digest'') (ce_envelope c))"

fun linked :: "env \<Rightarrow> CommittedEvent list \<Rightarrow> bool" where
  "linked E [] = True"
| "linked E (c # older) =
     (ce_event_digest c = sha_json E (JObj (unsigned c))
      \<and> pget (unsigned c) ''prev_digest''
          = JStr (case older of [] \<Rightarrow> '''' | p # _ \<Rightarrow> ce_event_digest p)
      \<and> linked E older)"

lemma map_of_filter_ne: "k \<noteq> j \<Longrightarrow> map_of (filter (\<lambda>kv. fst kv \<noteq> j) p) k = map_of p k"
  by (induction p) auto

lemma pget_unsigned: "k \<noteq> ''event_digest'' \<Longrightarrow> pget (unsigned c) k = canon (pget (ce_envelope c) k)"
proof -
  assume "k \<noteq> ''event_digest''"
  then have "map_of (filter (\<lambda>kv. fst kv \<noteq> ''event_digest'') (ce_envelope c)) k = map_of (ce_envelope c) k"
    by (rule map_of_filter_ne)
  then show ?thesis by (simp add: unsigned_def pget_def split: option.split)
qed

lemma verify_chain_linked:
  "verify_chain E C run 1 '''' ls = Inr cs \<Longrightarrow> linked E (rev cs)"
proof (induction ls arbitrary: cs rule: rev_induct)
  case (snoc l ls)
  obtain us vs where us: "cs = us @ vs" "verify_chain E C run 1 '''' ls = Inr us" "length vs = length [l]"
    using verify_chain_prefix [OF snoc.prems] by blast
  then obtain c where c: "cs = us @ [c]" by (cases vs) auto
  have v: "verify_line E C run (1 + int (length us)) (if us = [] then '''' else ce_event_digest (last us)) True l = Inr c"
    using snoc.prems verify_chain_snoc [OF us(2)] c by (auto simp: bind_res_Inr_iff)
  have "ce_event_digest c = sha_json E (JObj (unsigned c))"
    using verify_line_InrD [OF v]
    by (auto simp: unsigned_def digest_json_def canon_JObj simp del: canon.simps)
  moreover have "pget (unsigned c) ''prev_digest''
      = JStr (case rev us of [] \<Rightarrow> '''' | p # _ \<Rightarrow> ce_event_digest p)"
    using verify_line_InrD [OF v]
    by (cases us rule: rev_cases) (auto simp: pget_unsigned)
  ultimately show ?case using snoc.IH [OF us(2)] c by simp
qed simp

lemma linked_unsigned_eq:
  assumes "inj (sha_json E)" "linked E (c # cs)" "linked E (c' # cs')"
    "ce_event_digest c = ce_event_digest c'"
  shows "unsigned c = unsigned c'"
proof -
  have "sha_json E (JObj (unsigned c)) = sha_json E (JObj (unsigned c'))"
    using assms(2-4) by (simp only: linked.simps)
  with assms(1) show ?thesis by (simp add: inj_eq)
qed

lemma linked_heads_agree:
  assumes "inj (sha_json E)" "\<And>v. sha_json E v \<noteq> ''''"
    and "linked E (c # cs)" "linked E (c' # cs')" "ce_event_digest c = ce_event_digest c'"
  shows "map unsigned (c # cs) = map unsigned (c' # cs')"
  using assms(3-5)
proof (induction cs arbitrary: c c' cs')
  case Nil
  have u: "unsigned c = unsigned c'"
    using assms(1) Nil by (rule linked_unsigned_eq)
  have "cs' = []"
  proof (cases cs')
    case (Cons p ps)
    then have "ce_event_digest p = ''''"
      using Nil(1,2) u by (simp only: linked.simps list.case json.inject)
    with Nil(2) Cons assms(2) show ?thesis by (metis linked.simps(2))
  qed
  with u show ?case by simp
next
  case (Cons d ds)
  have u: "unsigned c = unsigned c'"
    using assms(1) Cons.prems by (rule linked_unsigned_eq)
  have ne: "ce_event_digest d \<noteq> ''''"
    using Cons.prems(1) assms(2) by (simp only: linked.simps not_False_eq_True)
  note IH = Cons.IH and prems = Cons.prems
  show ?case
  proof (cases cs')
    case Nil
    then show ?thesis
      using prems(1,2) u ne by (simp only: linked.simps list.case json.inject)
  next
    case (Cons d' ds')
    then have "linked E (d' # ds')" "ce_event_digest d = ce_event_digest d'" "linked E (d # ds)"
      using prems(1,2) u by (simp_all only: linked.simps list.case json.inject)
    then show ?thesis using IH [of d d' ds'] u Cons by (simp only: list.map)
  qed
qed

section \<open>Bodies and retirement tombstones\<close>

lemma map_res_mono:
  assumes "\<And>x y. x \<in> set xs \<Longrightarrow> f x = Inr y \<Longrightarrow> g x = Inr y" "map_res f xs = Inr ys"
  shows "map_res g xs = Inr ys"
  using assms by (induction xs arbitrary: ys) (auto simp: bind_res_Inr_iff)

lemma replay_mono:
  assumes "\<And>s e s'. f s e = Inr s' \<Longrightarrow> g s e = Inr s'" "replay f s es = Inr s'"
  shows "replay g s es = Inr s'"
  using assms(2) by (induction es arbitrary: s) (auto simp: bind_res_Inr_iff dest: assms(1))

lemma release_target_mono:
  "release_target evs e d n v = Inr q \<Longrightarrow> release_target (evs @ [c]) e d n v = Inr q"
  by (auto simp: release_target_def Let_def find_append bind_res_Inr_iff)

lemma release_step_mono:
  "release_step E evs rel e = Inr rel' \<Longrightarrow> release_step E (evs @ [c]) rel e = Inr rel'"
  using map_res_mono [OF release_target_mono]
  by (fastforce simp: release_step_def bind_res_Inr_iff split: if_splits)

lemma released_snoc:
  assumes "released_event_sequences E evs = Inr rel" "\<not> is_tombstone c"
  shows "released_event_sequences E (evs @ [c]) = Inr rel"
  using replay_mono [of "release_step E evs" "release_step E (evs @ [c])", OF release_step_mono] assms
  by (simp add: released_event_sequences_def replay_append release_step_def)

lemma blob_cong: "map_of (st_sealed s') d = map_of (st_sealed s) d \<Longrightarrow> blob E d s' = blob E d s"
  by (simp add: blob_def)

lemma attach_body_cong:
  "map_of (st_sealed s') (ce_blob_digest c) = map_of (st_sealed s) (ce_blob_digest c)
     \<Longrightarrow> attach_body E s' rel c = attach_body E s rel c"
  by (simp add: attach_body_def blob_def)

lemma attach_body_Inr: "attach_body E s rel c = Inr c' \<Longrightarrow> \<exists>b. c' = c\<lparr>ce_body := b\<rparr>"
  by (auto simp: attach_body_def bind_res_Inr_iff split: if_splits)

lemma attach_body_fresh:
  assumes "map_of (st_sealed s) (ce_blob_digest c) = Some body" "sha_bytes E body = ce_blob_digest c"
    "ce_blob_bytes c = int (length body)"
  shows "attach_body E s rel c = Inr (c\<lparr>ce_body := body\<rparr>)"
  using assms by (auto simp: attach_body_def blob_def)

definition strip :: "CommittedEvent \<Rightarrow> CommittedEvent" where
  "strip c = c\<lparr>ce_body := ''''\<rparr>"

lemma strip_fields [simp]:
  "ce_sequence (strip c) = ce_sequence c" "ce_event_digest (strip c) = ce_event_digest c"
  "ce_blob_digest (strip c) = ce_blob_digest c" "ce_payload (strip c) = ce_payload c"
  "ce_event_type (strip c) = ce_event_type c"
  by (simp_all add: strip_def)

lemma map_res_attach_strip:
  "map_res (attach_body E s rel) cs = Inr evs \<Longrightarrow> map strip evs = map strip cs"
  by (induction cs arbitrary: evs) (auto simp: bind_res_Inr_iff strip_def dest: attach_body_Inr)

lemma map_strip_field:
  assumes "map strip evs = map strip cs" "\<And>c. f (strip c) = f c"
  shows "map f evs = map f cs"
proof -
  have "map f xs = map f (map strip xs)" for xs using assms(2) by simp
  then show ?thesis using assms(1) by metis
qed

section \<open>Reading a store\<close>

lemma read_verified_iff:
  "read_verified E C s = Inr evs \<longleftrightarrow>
     (\<exists>rows cs rel. read_reservations E s = Inr rows \<and> \<not> torn (st_events s)
        \<and> verify_chain E C (st_run_id s) 1 '''' (lines (st_events s)) = Inr cs
        \<and> released_event_sequences E cs = Inr rel \<and> map_res (attach_body E s rel) cs = Inr evs)"
  by (auto simp: read_verified_def attach_verified_bodies_def bind_res_Inr_iff)

lemma read_verified_reservations:
  "read_verified E C s = Inr evs \<Longrightarrow> \<exists>rows. read_reservations E s = Inr rows"
  by (auto simp: read_verified_iff)

lemma last_map_conv: "xs \<noteq> [] \<Longrightarrow> f (last xs) = last (map f xs)"
  by (simp add: last_map)

lemma read_verified_sequences:
  assumes "read_verified E C s = Inr evs"
  shows "map ce_sequence evs = map int [1..<length evs + 1]" "last_sequence evs = int (length evs)"
proof -
  obtain cs where cs: "verify_chain E C (st_run_id s) 1 '''' (lines (st_events s)) = Inr cs"
    "map strip evs = map strip cs"
    using assms map_res_attach_strip by (auto simp: read_verified_iff)
  have "map ce_sequence evs = map ce_sequence cs"
    using map_strip_field [OF cs(2), of ce_sequence] by simp
  moreover have "map ce_sequence cs = map int [1..<length cs + 1]"
  proof (rule nth_equalityI)
    fix i assume "i < length (map ce_sequence cs)"
    then show "map ce_sequence cs ! i = map int [1..<length cs + 1] ! i"
      using verify_chain_nth [OF cs(1), of i] by (simp del: upt_Suc)
  qed (simp del: upt_Suc)
  moreover have "length evs = length cs" using cs(2) by (metis length_map)
  ultimately show sq: "map ce_sequence evs = map int [1..<length evs + 1]" by simp
  then show "last_sequence evs = int (length evs)"
    by (cases "evs = []") (simp_all add: last_sequence_def last_map_conv [of evs ce_sequence] Suc_le_eq)
qed

text \<open>Only the sealed blobs that the events name and the fact that the reservations can be read
  matter to a read of the canonical stream.\<close>

lemma read_verified_frame:
  assumes "read_verified E C s = Inr evs" "read_reservations E s' = Inr rows"
    "st_run_id s' = st_run_id s" "st_events s' = st_events s"
    "\<And>c. c \<in> set evs \<Longrightarrow> map_of (st_sealed s') (ce_blob_digest c) = map_of (st_sealed s) (ce_blob_digest c)"
  shows "read_verified E C s' = Inr evs"
proof -
  obtain cs rel where cs: "verify_chain E C (st_run_id s) 1 '''' (lines (st_events s)) = Inr cs"
    "released_event_sequences E cs = Inr rel" "map_res (attach_body E s rel) cs = Inr evs"
    "\<not> torn (st_events s)"
    using assms(1) by (auto simp: read_verified_iff)
  have "map ce_blob_digest evs = map ce_blob_digest cs"
    using map_strip_field [OF map_res_attach_strip [OF cs(3)], of ce_blob_digest] by simp
  then have digests: "ce_blob_digest ` set evs = ce_blob_digest ` set cs" by (metis image_set)
  have "map_of (st_sealed s') (ce_blob_digest c) = map_of (st_sealed s) (ce_blob_digest c)"
    if "c \<in> set cs" for c
  proof -
    have "ce_blob_digest c \<in> ce_blob_digest ` set evs" using that digests by simp
    then obtain e where "e \<in> set evs" "ce_blob_digest c = ce_blob_digest e" by (rule imageE)
    then show ?thesis using assms(5) by simp
  qed
  then have "map_res (attach_body E s' rel) cs = Inr evs"
    using map_res_mono [OF _ cs(3), of "attach_body E s' rel"] attach_body_cong [of s' _ s] by metis
  then show ?thesis using assms(2-4) cs by (auto simp: read_verified_iff)
qed

section \<open>Store invariant\<close>

text \<open>A contract reads a payload by key, so it does not see the order of the keys.\<close>

definition reads_by_key :: "registry \<Rightarrow> bool" where
  "reads_by_key C =
     (\<forall>t k p n. C t = Some k \<longrightarrow>
        validate_payload k (canon_dict p) n = validate_payload k p n
        \<and> identity_from_payload k (canon_dict p) = identity_from_payload k p)"

text \<open>The stream verifies to \<open>evs\<close>, reservations carry the names the store gives them, and every
  closed reservation is of a committed event.\<close>

definition store_ok :: "env \<Rightarrow> registry \<Rightarrow> store \<Rightarrow> CommittedEvent list \<Rightarrow> bool" where
  "store_ok E C s evs =
     (read_verified E C s = Inr evs
      \<and> (\<exists>rows. read_reservations E s = Inr rows \<and> well_named (st_run_id s) rows
           \<and> (\<forall>r \<in> set rows. rv_status r \<noteq> RESERVED \<longrightarrow> rv_sequence r \<le> last_sequence evs)))"

definition as_read :: "CommittedEvent \<Rightarrow> CommittedEvent" where
  "as_read c = c\<lparr>ce_payload := canon_dict (ce_payload c), ce_envelope := canon_dict (ce_envelope c)\<rparr>"

lemma as_read_fields [simp]:
  "ce_sequence (as_read c) = ce_sequence c" "ce_event_digest (as_read c) = ce_event_digest c"
  "ce_event_type (as_read c) = ce_event_type c" "ce_payload (as_read c) = canon_dict (ce_payload c)"
  "ce_blob_digest (as_read c) = ce_blob_digest c" "ce_body (as_read c) = ce_body c"
  by (simp_all add: as_read_def)

text \<open>An event that its contract accepts, whose redacted payload names its redacted body, and whose
  body is not one that storage retirement released.\<close>

definition appendable :: "env \<Rightarrow> registry \<Rightarrow> CanonicalEvent \<Rightarrow> string \<Rightarrow> CommittedEvent list \<Rightarrow> store \<Rightarrow> bool" where
  "appendable E C ev body evs s =
     (let (b, p) = prepared E ev body s in
      pget p ''blob_digest'' = JStr (sha_bytes E b) \<and> pget p ''blob_bytes'' = JInt (int (length b))
      \<and> ev_type ev \<noteq> ''storage-governor.recorded''
      \<and> (\<exists>k. C (ev_type ev) = Some k \<and> (\<forall>n. validate_payload k p n = Inr ()))
      \<and> (map_of (st_sealed s) (sha_bytes E b) = None \<longrightarrow> sha_bytes E b \<notin> ce_blob_digest ` set evs))"

lemma empty_store_ok: "store_ok E C (empty_store run red hook) []"
  by (auto simp: store_ok_def read_verified_iff empty_store_def read_reservations_def scan_init_def
      released_event_sequences_def well_named_def)

lemma unique_reserved:
  assumes rows: "read_reservations E s = Inr rows" "well_named (st_run_id s) rows"
    and r: "r \<in> set rows" "rv_status r = RESERVED"
    and closed: "\<forall>q \<in> set rows. rv_status q \<noteq> RESERVED \<longrightarrow> rv_sequence q < rv_sequence r"
  shows "List.find (\<lambda>q. rv_reservation_id q = rv_reservation_id r) (rev rows) = Some r"
proof -
  obtain q where q: "List.find (\<lambda>q. rv_reservation_id q = rv_reservation_id r) (rev rows) = Some q"
    using find_rev_Some_ex [OF r(1), of "\<lambda>q. rv_reservation_id q = rv_reservation_id r"] by blast
  then have q': "q \<in> set rows" "rv_reservation_id q = rv_reservation_id r"
    using find_Some_set by fastforce+
  then have "rv_sequence q = rv_sequence r"
    using rows r(1) reservation_name_inj read_reservations_rows [OF rows(1)]
    by (metis well_named_def)
  then have "rv_status q = RESERVED" using closed q'(1) by auto
  moreover have "sorted_wrt (\<lambda>a b. rv_reservation_id a = rv_reservation_id b \<longrightarrow> rv_status b \<noteq> RESERVED) rows"
    using read_reservations_reserved_first [OF rows(1)] by (simp add: reserved_first_def)
  ultimately have "q = r"
    using q' r by (auto simp: in_set_conv_nth sorted_wrt_iff_nth_less) (metis linorder_neqE_nat)
  with q show ?thesis by simp
qed

section \<open>Writing to a store\<close>

lemma seal_blob_Inr:
  assumes "seal_blob E d body s = (Inr u, s1)"
  shows "s1 = s\<lparr>st_sealed := st_sealed s1\<rparr>" "map_of (st_sealed s1) d = Some body"
    "x \<noteq> d \<Longrightarrow> map_of (st_sealed s1) x = map_of (st_sealed s) x"
    "map_of (st_sealed s) d = Some b \<Longrightarrow> b = body"
  using assms by (auto simp: seal_blob_def guard_res_def split: option.splits if_splits)

lemma seal_blob_Inl: "seal_blob E d body s = (Inl e, s1) \<Longrightarrow> s1 = s"
  by (auto simp: seal_blob_def split: option.splits)

lemma last_digest_strip:
  assumes "map strip evs = map strip cs"
  shows "last_digest evs = (if cs = [] then '''' else ce_event_digest (last cs))"
proof (cases "cs = []")
  case False
  then have "evs \<noteq> []" using assms by auto
  moreover have "map ce_event_digest evs = map ce_event_digest cs"
    using map_strip_field [OF assms, of ce_event_digest] by simp
  ultimately show ?thesis
    using False by (simp add: last_digest_def last_map_conv [of _ ce_event_digest])
qed (use assms in \<open>simp add: last_digest_def\<close>)

text \<open>The event as the verifier will read it back.\<close>

definition written :: "env \<Rightarrow> EventReservation \<Rightarrow> CanonicalEvent \<Rightarrow> payload \<Rightarrow> string \<Rightarrow> string \<Rightarrow> string \<Rightarrow> CommittedEvent" where
  "written E r ev p body prev run =
     \<lparr>ce_sequence = rv_sequence r, ce_previous_digest = prev,
      ce_event_digest = digest_json E (event_base r ev p prev run),
      ce_event_type = ev_type ev, ce_payload = p, ce_envelope = envelope_of E r ev p prev run,
      ce_blob_digest = sha_bytes E body, ce_blob_bytes = int (length body), ce_body = body\<rparr>"

lemma read_reservations_cong:
  "st_reservations s' = st_reservations s \<Longrightarrow> st_run_id s' = st_run_id s
     \<Longrightarrow> read_reservations E s' = read_reservations E s"
  by (simp add: read_reservations_def)

lemma read_verified_append:
  assumes read: "read_verified E C s = Inr evs" and rr: "read_reservations E s' = Inr rows"
    and run: "st_run_id s' = st_run_id s"
    and evfile: "st_events s' = append_durable (st_events s) (envelope_of E r ev p (last_digest evs) (st_run_id s))"
    and new: "map_of (st_sealed s') (sha_bytes E body) = Some body"
    and old: "\<And>c. c \<in> set evs \<Longrightarrow> map_of (st_sealed s') (ce_blob_digest c) = map_of (st_sealed s) (ce_blob_digest c)"
    and p: "pget p ''blob_digest'' = JStr (sha_bytes E body)" "pget p ''blob_bytes'' = JInt (int (length body))"
    and sq: "rv_sequence r = last_sequence evs + 1"
    and k: "C (ev_type ev) = Some k" "validate_payload k (canon_dict p) (rv_sequence r) = Inr ()"
    and tp: "ev_type ev \<noteq> ''storage-governor.recorded''"
  shows "read_verified E C s' = Inr (evs @ [as_read (written E r ev p body (last_digest evs) (st_run_id s))])"
proof -
  let ?w = "as_read (written E r ev p body (last_digest evs) (st_run_id s))"
  have "read_verified E C (s'\<lparr>st_events := st_events s\<rparr>) = Inr evs"
    using read_verified_frame [OF read, of "s'\<lparr>st_events := st_events s\<rparr>" rows] rr run old
      read_reservations_cong [of "s'\<lparr>st_events := st_events s\<rparr>" s']
    by simp
  then obtain cs rel where cs: "verify_chain E C (st_run_id s) 1 '''' (lines (st_events s)) = Inr cs"
    "released_event_sequences E cs = Inr rel"
    "map_res (attach_body E (s'\<lparr>st_events := st_events s\<rparr>) rel) cs = Inr evs"
    "\<not> torn (st_events s)"
    using run by (auto simp: read_verified_iff)
  have strip: "map strip evs = map strip cs" using map_res_attach_strip [OF cs(3)] .
  have len: "rv_sequence r = 1 + int (length cs)"
    using sq read_verified_sequences(2) [OF read] arg_cong [OF strip, of length] by simp
  have prev: "last_digest evs = (if cs = [] then '''' else ce_event_digest (last cs))"
    by (rule last_digest_strip [OF strip])
  have "verify_chain E C (st_run_id s') 1 '''' (lines (st_events s')) = Inr (cs @ [strip ?w])"
    using verify_chain_snoc [OF cs(1), of "Text (canon (JObj (envelope_of E r ev p (last_digest evs) (st_run_id s))))"]
      verify_written_line [where r = r and ev = ev and payload = p and C = C and n = "rv_sequence r", OF refl k] p run len prev
    by (simp add: evfile append_durable_def written_def as_read_def strip_def del: canon.simps)
  moreover have "released_event_sequences E (cs @ [strip ?w]) = Inr rel"
    using released_snoc [OF cs(2)] tp by (simp add: is_tombstone_def written_def)
  moreover have "map_res (attach_body E s' rel) cs = Inr evs"
    using map_res_mono [OF _ cs(3), of "attach_body E s' rel"] attach_body_cong [of s' _ "s'\<lparr>st_events := st_events s\<rparr>"]
    by simp
  moreover have "attach_body E s' rel (strip ?w) = Inr ?w"
    using attach_body_fresh [of s' "strip ?w" body] new by (simp add: written_def strip_def as_read_def)
  ultimately show ?thesis
    using rr cs(4) by (auto simp: read_verified_iff evfile append_durable_def map_res_append)
qed

lemma last_sequence_snoc [simp]: "last_sequence (evs @ [c]) = ce_sequence c"
  by (simp add: last_sequence_def)

lemma last_digest_snoc [simp]: "last_digest (evs @ [c]) = ce_event_digest c"
  by (simp add: last_digest_def)

lemma record_reservation_fields [simp]:
  "st_events (record_reservation r st s) = st_events s" "st_run_id (record_reservation r st s) = st_run_id s"
  "st_sealed (record_reservation r st s) = st_sealed s" "st_hook (record_reservation r st s) = st_hook s"
  "st_redactor (record_reservation r st s) = st_redactor s"
  by (simp_all add: record_reservation_def)

text \<open>The four stores that a commit can leave behind: unchanged, with the body sealed, with the event
  appended, and with its reservation closed.\<close>

definition appended :: "env \<Rightarrow> EventReservation \<Rightarrow> CanonicalEvent \<Rightarrow> payload \<Rightarrow> string \<Rightarrow> store \<Rightarrow> store" where
  "appended E r ev p prev s1 =
     s1\<lparr>st_events := append_durable (st_events s1) (envelope_of E r ev p prev (st_run_id s1))\<rparr>"

lemma appended_fields [simp]:
  "st_reservations (appended E r ev p prev s) = st_reservations s" "st_run_id (appended E r ev p prev s) = st_run_id s"
  "st_sealed (appended E r ev p prev s) = st_sealed s" "st_hook (appended E r ev p prev s) = st_hook s"
  "st_redactor (appended E r ev p prev s) = st_redactor s"
  by (simp_all add: appended_def)

lemma commit_locked_unfold:
  "commit_locked E r ev p body evs s =
     (case check_commit E r ev p evs s of
        Inl e \<Rightarrow> (Inl e, s)
      | Inr _ \<Rightarrow>
        (case seal_blob E (rv_blob_digest r) body s of
           (Inl e, s1) \<Rightarrow> (Inl e, s1)
         | (Inr _, s1) \<Rightarrow>
           (case st_hook s1 ''before_append'' of
              Some e \<Rightarrow> (Inl e, s1)
            | None \<Rightarrow>
              let s2 = appended E r ev p (last_digest evs) s1 in
              (case st_hook s2 ''after_append'' of
                 Some e \<Rightarrow> (Inl e, s2)
               | None \<Rightarrow>
                 (Inr ((written E r ev p body (last_digest evs) (st_run_id s))
                        \<lparr>ce_blob_digest := rv_blob_digest r, ce_blob_bytes := rv_blob_bytes r\<rparr>),
                  record_reservation r (Some COMMITTED) s2)))))"
proof (cases "seal_blob E (rv_blob_digest r) body s")
  case (Pair o1 s1)
  have "st_run_id s1 = st_run_id s"
    using Pair by (cases o1) (auto dest: seal_blob_Inl seal_blob_Inr(1) [THEN arg_cong [of _ _ st_run_id]])
  then show ?thesis
    using Pair
    by (auto simp: commit_locked_def Let_def appended_def envelope_of_def written_def
        split: sum.split option.split)
qed

lemma check_commit_Inr:
  assumes "check_commit E r ev p evs s = Inr u" "pget p ''blob_digest'' = JStr d" "pget p ''blob_bytes'' = JInt m"
  shows "rv_status r = RESERVED" "rv_sequence r = last_sequence evs + 1" "rv_blob_digest r = d" "rv_blob_bytes r = m"
  using assms
  by (auto simp: check_commit_def Let_def pidx_def pget_def py_eq_int_def split: if_splits option.splits)

text \<open>The situation in which \<open>commit_locked\<close> is entered: a sound store that holds the reservation and
  an event that its contract accepts.\<close>

definition commit_site ::
  "env \<Rightarrow> registry \<Rightarrow> store \<Rightarrow> CommittedEvent list \<Rightarrow> EventReservation list \<Rightarrow> EventReservation
     \<Rightarrow> CanonicalEvent \<Rightarrow> payload \<Rightarrow> string \<Rightarrow> bool"
where
  "commit_site E C s evs rows r ev p body =
     (reads_by_key C \<and> store_ok E C s evs \<and> read_reservations E s = Inr rows \<and> r \<in> set rows
      \<and> pget p ''blob_digest'' = JStr (sha_bytes E body) \<and> pget p ''blob_bytes'' = JInt (int (length body))
      \<and> ev_type ev \<noteq> ''storage-governor.recorded''
      \<and> (\<exists>k. C (ev_type ev) = Some k \<and> (\<forall>n. validate_payload k p n = Inr ()))
      \<and> (map_of (st_sealed s) (sha_bytes E body) = None \<longrightarrow> sha_bytes E body \<notin> ce_blob_digest ` set evs))"

lemma commit_siteD:
  assumes "commit_site E C s evs rows r ev p body"
  shows "reads_by_key C" "store_ok E C s evs" "read_reservations E s = Inr rows" "r \<in> set rows"
    "pget p ''blob_digest'' = JStr (sha_bytes E body)" "pget p ''blob_bytes'' = JInt (int (length body))"
    "ev_type ev \<noteq> ''storage-governor.recorded''" "read_verified E C s = Inr evs" "well_named (st_run_id s) rows"
    "q \<in> set rows \<Longrightarrow> rv_status q \<noteq> RESERVED \<Longrightarrow> rv_sequence q \<le> last_sequence evs"
    "map_of (st_sealed s) (sha_bytes E body) = None \<Longrightarrow> sha_bytes E body \<notin> ce_blob_digest ` set evs"
  using assms by (auto simp: commit_site_def store_ok_def)

lemma commit_site_contract:
  assumes "commit_site E C s evs rows r ev p body"
  obtains k where "C (ev_type ev) = Some k" "\<And>n. validate_payload k (canon_dict p) n = Inr ()"
  using assms by (auto simp: commit_site_def reads_by_key_def)

lemma seal_blob_fields:
  assumes "seal_blob E d body s = (out, s1)"
  shows "st_run_id s1 = st_run_id s" "st_events s1 = st_events s" "st_reservations s1 = st_reservations s"
    "st_hook s1 = st_hook s" "st_redactor s1 = st_redactor s"
  using assms by (auto simp: seal_blob_def split: option.splits)

lemma sealed_ok:
  assumes site: "commit_site E C s evs rows r ev p body"
    and seal: "seal_blob E (sha_bytes E body) body s = (Inr u, s1)"
  shows "commit_site E C s1 evs rows r ev p body"
    and "c \<in> set evs \<Longrightarrow> map_of (st_sealed s1) (ce_blob_digest c) = map_of (st_sealed s) (ce_blob_digest c)"
proof -
  note f = seal_blob_fields [OF seal] and new = seal_blob_Inr [OF seal] and c = commit_siteD [OF site]
  have rr: "read_reservations E s1 = Inr rows"
    using read_reservations_cong [of s1 s] f c(3) by simp
  show same: "map_of (st_sealed s1) (ce_blob_digest c) = map_of (st_sealed s) (ce_blob_digest c)"
    if "c \<in> set evs" for c
  proof (cases "ce_blob_digest c = sha_bytes E body")
    case True
    then have "map_of (st_sealed s) (sha_bytes E body) \<noteq> None" using c(11) that by force
    then show ?thesis using True new(2,4) by auto
  qed (rule new(3))
  have "read_verified E C s1 = Inr evs"
    using read_verified_frame [OF c(8) rr f(1,2)] same by simp
  then have "store_ok E C s1 evs" using rr f c(9,10) by (auto simp: store_ok_def)
  then show "commit_site E C s1 evs rows r ev p body"
    using site rr new(2) by (auto simp: commit_site_def)
qed

lemma appended_ok:
  assumes site: "commit_site E C s evs rows r ev p body" and sq: "rv_sequence r = last_sequence evs + 1"
    and new: "map_of (st_sealed s) (sha_bytes E body) = Some body"
  shows "store_ok E C (appended E r ev p (last_digest evs) s)
           (evs @ [as_read (written E r ev p body (last_digest evs) (st_run_id s))])"
proof -
  note c = commit_siteD [OF site]
  let ?s = "appended E r ev p (last_digest evs) s"
  have rr: "read_reservations E ?s = Inr rows"
    using read_reservations_cong [of ?s s] c(3) by simp
  obtain k where k: "C (ev_type ev) = Some k" "\<And>n. validate_payload k (canon_dict p) n = Inr ()"
    using commit_site_contract [OF site] by blast
  have "read_verified E C ?s = Inr (evs @ [as_read (written E r ev p body (last_digest evs) (st_run_id s))])"
    using read_verified_append [OF c(8) rr _ _ _ _ c(5,6) sq k(1) k(2) c(7)] new
    by (simp add: appended_def)
  then show ?thesis using rr c(9,10) sq by (fastforce simp: store_ok_def written_def)
qed

lemma close_ok:
  assumes ok: "store_ok E C s evs" and rows: "read_reservations E s = Inr rows"
    and r: "rv_status r = RESERVED" "List.find (\<lambda>q. rv_reservation_id q = rv_reservation_id r) (rev rows) = Some r"
      "rv_sequence r \<le> last_sequence evs"
    and st: "st = COMMITTED \<or> st = RECOVERED"
  shows "store_ok E C (record_reservation r (Some st) s) evs"
proof -
  have rr: "read_reservations E (record_reservation r (Some st) s) = Inr (rows @ [r\<lparr>rv_status := st\<rparr>])"
    using rows r(1,2) st by (rule read_closing_reservation)
  have "r \<in> set rows" using r(2) find_Some_set by fastforce
  then have "well_named (st_run_id s) (rows @ [r\<lparr>rv_status := st\<rparr>])"
    using ok rows by (auto simp: store_ok_def well_named_def)
  moreover have "read_verified E C (record_reservation r (Some st) s) = Inr evs"
    using read_verified_frame [OF _ rr, of C s evs] ok by (simp add: store_ok_def)
  ultimately show ?thesis using rr ok rows r(3) by (auto simp: store_ok_def)
qed

lemma committed_ok:
  assumes site: "commit_site E C s evs rows r ev p body" and sq: "rv_sequence r = last_sequence evs + 1"
    and r: "rv_status r = RESERVED" and new: "map_of (st_sealed s) (sha_bytes E body) = Some body"
  shows "store_ok E C (record_reservation r (Some COMMITTED) (appended E r ev p (last_digest evs) s))
           (evs @ [as_read (written E r ev p body (last_digest evs) (st_run_id s))])"
proof -
  note c = commit_siteD [OF site]
  let ?s = "appended E r ev p (last_digest evs) s"
  have rr: "read_reservations E ?s = Inr rows"
    using read_reservations_cong [of ?s s] c(3) by simp
  have "List.find (\<lambda>q. rv_reservation_id q = rv_reservation_id r) (rev rows) = Some r"
    using unique_reserved [OF c(3,9,4) r] c(10) sq by force
  then show ?thesis
    using close_ok [OF appended_ok [OF site sq new] rr r] by (simp add: written_def)
qed

text \<open>Whatever a commit returns, hooks included, the store stays sound and has gained at most the
  one event.\<close>

lemma commit_locked_ok:
  assumes site: "commit_site E C s evs rows r ev p body"
    and run: "commit_locked E r ev p body evs s = (out, s')"
  defines "w \<equiv> written E r ev p body (last_digest evs) (st_run_id s)"
  shows "(case out of
            Inr c \<Rightarrow> c = w \<and> store_ok E C s' (evs @ [as_read w])
          | Inl e \<Rightarrow> store_ok E C s' evs \<or> store_ok E C s' (evs @ [as_read w]))"
proof (cases "check_commit E r ev p evs s")
  case (Inl e)
  then show ?thesis using run commit_siteD(2) [OF site] by (auto simp: commit_locked_unfold)
next
  case (Inr u)
  note chk = check_commit_Inr [OF Inr commit_siteD(5,6) [OF site]]
  obtain o1 s1 where seal: "seal_blob E (sha_bytes E body) body s = (o1, s1)" by fastforce
  show ?thesis
  proof (cases o1)
    case (Inl e)
    then show ?thesis
      using run Inr chk seal commit_siteD(2) [OF site] seal_blob_Inl [of E "sha_bytes E body" body s e s1]
      by (auto simp: commit_locked_unfold)
  next
    case (Inr u')
    with seal have seal': "seal_blob E (sha_bytes E body) body s = (Inr u', s1)" by simp
    have site1: "commit_site E C s1 evs rows r ev p body" using sealed_ok(1) [OF site seal'] .
    have new: "map_of (st_sealed s1) (sha_bytes E body) = Some body" using seal_blob_Inr(2) [OF seal'] .
    have w: "w = written E r ev p body (last_digest evs) (st_run_id s1)"
      using seal_blob_fields(1) [OF seal] by (simp add: w_def)
    have "w\<lparr>ce_blob_digest := rv_blob_digest r, ce_blob_bytes := rv_blob_bytes r\<rparr> = w"
      using chk by (simp add: w_def written_def)
    then show ?thesis
      using run \<open>check_commit E r ev p evs s = Inr u\<close> chk seal' commit_siteD(2) [OF site1]
        appended_ok [OF site1 chk(2) new] committed_ok [OF site1 chk(2,1) new]
      by (auto simp: commit_locked_unfold Let_def w [symmetric] w_def [symmetric] split: option.splits)
  qed
qed

lemma highest_sequence_ge:
  "q \<in> set rows \<Longrightarrow> rv_sequence q \<le> highest_sequence evs rows"
  by (auto simp: highest_sequence_def Let_def)

lemma new_reservation_Inr:
  assumes "new_reservation E k run ev p evs rows sq = Inr r"
  shows "rv_status r = RESERVED" "rv_run_id r = run" "last_sequence evs < rv_sequence r"
    "rv_sequence r = (case sq of Some n \<Rightarrow> n | None \<Rightarrow> highest_sequence evs rows + 1)"
    "rv_reservation_id r = reservation_name run (rv_sequence r) (rv_event_type r)"
    "rv_event_type r = ev_type ev" "rv_event_fingerprint r = event_fingerprint E p"
  using assms by (auto simp: new_reservation_def Let_def bind_res_Inr_iff)

lemma reserve_locked_cases:
  assumes "reserve_locked E C ev p evs sq s = (out, s')"
  shows "(s' = s \<and> (\<exists>e. out = Inl e)) \<or>
     (\<exists>k rows q. C (ev_type ev) = Some k \<and> read_reservations E s = Inr rows
        \<and> new_reservation E k (st_run_id s) ev p evs rows sq = Inr q
        \<and> s' = record_reservation q None s
        \<and> out = (case st_hook s ''after_reserve'' of None \<Rightarrow> Inr q | Some e \<Rightarrow> Inl e))"
proof (cases "C (ev_type ev)"; cases "read_reservations E s")
  fix k rows assume k: "C (ev_type ev) = Some k" "read_reservations E s = Inr rows"
  show ?thesis
  proof (cases "new_reservation E k (st_run_id s) ev p evs rows sq")
    case (Inl e)
    then have "out = Inl e \<and> s' = s" using assms k by (simp add: reserve_locked_def)
    then show ?thesis by simp
  next
    case (Inr q)
    then show ?thesis using assms k by (auto simp: reserve_locked_def Let_def split: option.splits)
  qed
qed (use assms in \<open>auto simp: reserve_locked_def\<close>)

lemma reserve_locked_ok:
  assumes ok: "store_ok E C s evs" and run: "reserve_locked E C ev p evs None s = (out, s')"
  shows "store_ok E C s' evs" "st_events s' = st_events s" "st_sealed s' = st_sealed s"
    "st_run_id s' = st_run_id s" "st_hook s' = st_hook s" "st_redactor s' = st_redactor s"
    "out = Inr r \<Longrightarrow> \<exists>rows. read_reservations E s' = Inr (rows @ [r]) \<and> read_reservations E s = Inr rows"
proof -
  obtain rows where rows: "read_reservations E s = Inr rows" "well_named (st_run_id s) rows"
    "\<forall>r \<in> set rows. rv_status r \<noteq> RESERVED \<longrightarrow> rv_sequence r \<le> last_sequence evs"
    using ok by (auto simp: store_ok_def)
  have pos: "0 \<le> last_sequence evs" using read_verified_sequences(2) ok by (auto simp: store_ok_def)
  consider "s' = s" "\<exists>e. out = Inl e"
    | k q where "new_reservation E k (st_run_id s) ev p evs rows None = Inr q"
      "s' = record_reservation q None s" "out = Inr q \<or> (\<exists>e. out = Inl e)"
    using reserve_locked_cases [OF run] rows(1) by (cases "st_hook s ''after_reserve''") auto
  then have "store_ok E C s' evs \<and> st_events s' = st_events s \<and> st_sealed s' = st_sealed s
     \<and> st_run_id s' = st_run_id s \<and> st_hook s' = st_hook s \<and> st_redactor s' = st_redactor s
     \<and> (out = Inr r \<longrightarrow> (\<exists>rows. read_reservations E s' = Inr (rows @ [r]) \<and> read_reservations E s = Inr rows))"
  proof cases
    case 1
    then show ?thesis using ok by auto
  next
    case 2
    note q = new_reservation_Inr [OF 2(1)]
    have "1 \<le> rv_sequence q" using q(3) pos by simp
    moreover have "\<forall>x \<in> set rows. rv_sequence x \<noteq> rv_sequence q"
      using q(4) highest_sequence_ge [of _ rows evs] by fastforce
    ultimately have rr: "read_reservations E (record_reservation q None s) = Inr (rows @ [q])"
      using read_fresh_reservation [OF rows(1,2) q(1,2) _ q(5)] by blast
    have "read_verified E C (record_reservation q None s) = Inr evs"
      using read_verified_frame [OF _ rr, of C s evs] ok by (simp add: store_ok_def)
    then have "store_ok E C s' evs"
      using rr rows 2(2) q(1,5) by (auto simp: store_ok_def well_named_def)
    then show ?thesis using rr 2(2,3) rows(1) by auto
  qed
  then show "store_ok E C s' evs" "st_events s' = st_events s" "st_sealed s' = st_sealed s"
    "st_run_id s' = st_run_id s" "st_hook s' = st_hook s" "st_redactor s' = st_redactor s"
    "out = Inr r \<Longrightarrow> \<exists>rows. read_reservations E s' = Inr (rows @ [r]) \<and> read_reservations E s = Inr rows"
    by blast+
qed

lemma last_filter_find:
  assumes "filter P xs \<noteq> []" "last (filter P xs) = x"
  shows "List.find P (rev xs) = Some x"
  using assms
  by (induction xs rule: rev_induct) (auto split: if_splits)

lemma find_cong_on: "(\<And>x. x \<in> set xs \<Longrightarrow> P x = Q x) \<Longrightarrow> List.find P xs = List.find Q xs"
  by (induction xs) auto

lemma recover_and_return_ok:
  assumes ok: "store_ok E C s evs" and prior: "prior \<in> set evs"
  shows "\<exists>s'. recover_and_return E prior s = (Inr prior, s') \<and> store_ok E C s' evs \<and> st_events s' = st_events s"
proof -
  obtain rows where rows: "read_reservations E s = Inr rows" "well_named (st_run_id s) rows"
    using ok by (auto simp: store_ok_def)
  have seqs: "map ce_sequence evs = map int [1..<length evs + 1]" "last_sequence evs = int (length evs)"
    using read_verified_sequences [of E C s evs] ok unfolding store_ok_def by blast+
  have "ce_sequence prior \<in> set (map ce_sequence evs)" using prior by simp
  then have le: "ce_sequence prior \<le> last_sequence evs" unfolding seqs by auto
  let ?m = "filter (\<lambda>q. rv_sequence q = ce_sequence prior) rows"
  show ?thesis
  proof (cases "?m \<noteq> [] \<and> rv_status (last ?m) = RESERVED")
    case False
    then show ?thesis
      using ok rows(1)
      by (auto simp: recover_and_return_def recover_reservation_locked_def reservation_for_sequence_def Let_def)
  next
    case True
    define r where "r = last ?m"
    have r: "r \<in> set rows" "rv_sequence r = ce_sequence prior"
      using True last_in_set [of ?m] by (auto simp: r_def)
    have "rv_sequence q = ce_sequence prior \<longleftrightarrow> rv_reservation_id q = rv_reservation_id r" if "q \<in> set (rev rows)" for q
    proof -
      have "rv_reservation_id q = rv_reservation_id r \<Longrightarrow> rv_sequence q = rv_sequence r"
        using that r rows reservation_name_inj read_reservations_rows [OF rows(1)]
        by (metis set_rev well_named_def)
      moreover have "rv_sequence q = rv_sequence r \<Longrightarrow> rv_reservation_id q = rv_reservation_id r"
        using that r(1) same_sequence_same_id [OF rows(1), of q r] by simp
      ultimately show ?thesis using r(2) by auto
    qed
    then have "List.find (\<lambda>q. rv_sequence q = ce_sequence prior) (rev rows)
        = List.find (\<lambda>q. rv_reservation_id q = rv_reservation_id r) (rev rows)"
      by (rule find_cong_on)
    moreover have "List.find (\<lambda>q. rv_sequence q = ce_sequence prior) (rev rows) = Some r"
      using True by (intro last_filter_find) (simp_all add: r_def)
    ultimately have "List.find (\<lambda>q. rv_reservation_id q = rv_reservation_id r) (rev rows) = Some r"
      by (rule subst)
    then have "store_ok E C (record_reservation r (Some RECOVERED) s) evs"
      using close_ok [OF ok rows(1)] True r le by (simp add: r_def)
    then show ?thesis
      using True rows(1)
      by (auto simp: recover_and_return_def recover_reservation_locked_def reservation_for_sequence_def
          Let_def r_def)
  qed
qed

section \<open>Appending to a sound store\<close>

lemma find_identity_in: "find_identity C evs ev p = Inr (Some c) \<Longrightarrow> c \<in> set evs"
  by (induction evs) (auto simp: Let_def split: if_splits option.splits)

lemma find_exact_identity_in: "find_exact_identity evs ev p = Some c \<Longrightarrow> c \<in> set evs"
  using find_Some_set by (fastforce simp: find_exact_identity_def)

lemma find_reservation_in:
  assumes "find_reservation_for_payload E ev p s = Inr (Some r)"
  shows "\<exists>rows. read_reservations E s = Inr rows \<and> r \<in> set rows"
proof -
  obtain rows where rows: "read_reservations E s = Inr rows"
    using assms by (auto simp: find_reservation_for_payload_def bind_res_Inr_iff)
  then have "filter (reservation_matches E (st_run_id s) ev p) rows = [r]"
    using assms by (auto simp: find_reservation_for_payload_def split: list.splits)
  then have "r \<in> set (filter (reservation_matches E (st_run_id s) ev p) rows)" by simp
  then show ?thesis using rows by auto
qed

lemma appendable_site:
  assumes "reads_by_key C" "store_ok E C s evs" "appendable E C ev body evs s" "prepared E ev body s = (b, p)"
    "read_reservations E s = Inr rows" "r \<in> set rows"
  shows "commit_site E C s evs rows r ev p b"
  using assms by (auto simp: commit_site_def appendable_def)

lemma reserved_site:
  assumes ok: "reads_by_key C" "store_ok E C s evs" "appendable E C ev body evs s" "prepared E ev body s = (b, p)"
    and run: "reserve_locked E C ev p evs None s = (Inr r, s')"
  shows "\<exists>rows. commit_site E C s' evs rows r ev p b"
proof -
  note r = reserve_locked_ok [OF ok(2) run]
  obtain rows where "read_reservations E s' = Inr (rows @ [r])" using r(7) [of r] by blast
  then show ?thesis
    using ok r(1,3) by (auto simp: commit_site_def appendable_def)
qed

text \<open>Nothing recorded answers for the event and the Run is open.\<close>

definition fresh_event :: "registry \<Rightarrow> CanonicalEvent \<Rightarrow> payload \<Rightarrow> CommittedEvent list \<Rightarrow> bool" where
  "fresh_event C ev p evs =
     (find_exact_identity evs ev p = None \<and> refuse_after_terminal evs = Inr ()
      \<and> find_identity C evs ev p = Inr None)"

text \<open>The store and reservation with which an append reaches \<open>commit_locked\<close>.\<close>

definition enters_commit ::
  "env \<Rightarrow> registry \<Rightarrow> CanonicalEvent \<Rightarrow> payload \<Rightarrow> CommittedEvent list \<Rightarrow> store \<Rightarrow> EventReservation \<Rightarrow> store \<Rightarrow> bool"
where
  "enters_commit E C ev p evs s r sr =
     (fresh_event C ev p evs
      \<and> (find_reservation_for_payload E ev p s = Inr (Some r) \<and> sr = s
         \<or> find_reservation_for_payload E ev p s = Inr None
           \<and> reserve_locked E C ev p evs None s = (Inr r, sr)))"

lemma append_cases:
  assumes "read_verified E C s = Inr evs" "prepared E ev body s = (b, p)" "append E C ev body s = (out, s')"
  shows "(\<exists>prior \<in> set evs. (out, s') = recover_and_return E prior s)
     \<or> (s' = s \<and> (\<exists>e. out = Inl e))
     \<or> (\<exists>e. fresh_event C ev p evs \<and> find_reservation_for_payload E ev p s = Inr None \<and> reserve_locked E C ev p evs None s = (Inl e, s') \<and> out = Inl e)
     \<or> (\<exists>r sr. enters_commit E C ev p evs s r sr \<and> commit_locked E r ev p b evs sr = (out, s'))"
proof (cases "find_exact_identity evs ev p")
  case (Some prior)
  then show ?thesis using assms find_exact_identity_in by (fastforce simp: append_def)
next
  case None
  then have new: "append_new E C ev p b evs s = (out, s')" using assms by (simp add: append_def)
  show ?thesis
  proof (cases "bind_res (refuse_after_terminal evs) (\<lambda>_. find_identity C evs ev p)")
    case (Inl e)
    then have "s' = s \<and> out = Inl e" using new by (simp add: append_new_def)
    then show ?thesis by blast
  next
    case (Inr found)
    then have unsealed: "refuse_after_terminal evs = Inr ()" and ident: "find_identity C evs ev p = Inr found"
      by (auto simp: bind_res_Inr_iff)
    show ?thesis
    proof (cases found)
      case (Some prior)
      then show ?thesis using new Inr find_identity_in ident by (fastforce simp: append_new_def)
    next
      case no_prior: None
      show ?thesis
      proof (cases "find_reservation_for_payload E ev p s")
        case err: (Inl e)
        then have "s' = s \<and> out = Inl e" using new Inr no_prior by (simp add: append_new_def)
        then show ?thesis by blast
      next
        case res: (Inr ro)
        show ?thesis
        proof (cases ro)
          case (Some r)
          then show ?thesis
            using new Inr no_prior res None unsealed ident by (auto simp: append_new_def enters_commit_def fresh_event_def)
        next
          case none: None
          obtain o2 s2 where r2: "reserve_locked E C ev p evs None s = (o2, s2)" by fastforce
          show ?thesis
            using new Inr no_prior res none None unsealed ident r2
            by (cases o2) (auto simp: append_new_def enters_commit_def fresh_event_def)
        qed
      qed
    qed
  qed
qed

lemma enters_commit_site:
  assumes ok: "reads_by_key C" "store_ok E C s evs" "appendable E C ev body evs s" "prepared E ev body s = (b, p)"
    and "enters_commit E C ev p evs s r sr"
  shows "\<exists>rows. commit_site E C sr evs rows r ev p b"
  using assms find_reservation_in appendable_site reserved_site unfolding enters_commit_def by metis

lemma append_ok:
  assumes ok: "reads_by_key C" "store_ok E C s evs" "appendable E C ev body evs s"
    and run: "append E C ev body s = (out, s')"
  shows "case out of
      Inr c \<Rightarrow> c \<in> set evs \<and> store_ok E C s' evs
             \<or> ce_payload c = snd (prepared E ev body s) \<and> ce_event_type c = ev_type ev
               \<and> ce_sequence c = int (length evs) + 1 \<and> store_ok E C s' (evs @ [as_read c])
    | Inl e \<Rightarrow> store_ok E C s' evs
             \<or> (\<exists>c. ce_payload c = snd (prepared E ev body s) \<and> store_ok E C s' (evs @ [as_read c]))"
proof -
  obtain b p where p: "prepared E ev body s = (b, p)" by fastforce
  have read: "read_verified E C s = Inr evs" using ok(2) by (simp add: store_ok_def)
  have commit: ?thesis if enter: "enters_commit E C ev p evs s r sr"
    and cl: "commit_locked E r ev p b evs sr = (out, s')" for r sr
  proof -
    obtain rows where site: "commit_site E C sr evs rows r ev p b"
      using enters_commit_site [OF ok p enter] by blast
    have sq: "rv_sequence r = int (length evs) + 1" if "out = Inr c" for c
    proof -
      have "check_commit E r ev p evs sr = Inr ()"
        using cl that by (auto simp: commit_locked_unfold split: sum.splits)
      then have "rv_sequence r = last_sequence evs + 1"
        using check_commit_Inr(2) commit_siteD(5,6) [OF site] by blast
      then show ?thesis using read_verified_sequences(2) [OF read] by simp
    qed
    show ?thesis
      using commit_locked_ok [OF site cl] sq p by (auto simp: written_def split: sum.splits)
  qed
  have reserve: ?thesis if "reserve_locked E C ev p evs None s = (Inl e, s')" "out = Inl e" for e
    using reserve_locked_ok(1) [OF ok(2) that(1)] that(2) by simp
  have prior: ?thesis if "prior \<in> set evs" "(out, s') = recover_and_return E prior s" for prior
    using recover_and_return_ok [OF ok(2) that(1)] that by auto
  from append_cases [OF read p run] ok(2) commit reserve prior show ?thesis
    by (elim disjE bexE exE conjE) simp_all
qed

section \<open>Crashes at the append hook\<close>

definition hooked :: "(string \<Rightarrow> exn option) \<Rightarrow> store \<Rightarrow> store" where
  "hooked h s = s\<lparr>st_hook := h\<rparr>"

abbreviation unhooked :: "store \<Rightarrow> store" where
  "unhooked s \<equiv> hooked (\<lambda>_. None) s"

lemma hooked_fields [simp]:
  "st_hook (hooked h s) = h" "st_run_id (hooked h s) = st_run_id s" "st_events (hooked h s) = st_events s"
  "st_reservations (hooked h s) = st_reservations s" "st_sealed (hooked h s) = st_sealed s"
  "st_redactor (hooked h s) = st_redactor s" "hooked h (hooked g s) = hooked h s"
  by (simp_all add: hooked_def)

lemma read_hooked [simp]:
  "read_reservations E (hooked h s) = read_reservations E s"
  "read_verified E C (hooked h s) = read_verified E C s"
  "reservation_for_sequence E q (hooked h s) = reservation_for_sequence E q s"
  "find_reservation_for_payload E ev p (hooked h s) = find_reservation_for_payload E ev p s"
  "prepared E ev body (hooked h s) = prepared E ev body s"
  "check_commit E r ev p evs (hooked h s) = check_commit E r ev p evs s"
  "store_ok E C (hooked h s) evs = store_ok E C s evs"
proof -
  show rr: "read_reservations E (hooked h s) = read_reservations E s"
    by (simp add: read_reservations_def)
  have "attach_body E (hooked h s) rel = attach_body E s rel" for rel
    by (intro ext attach_body_cong) simp
  then have attach: "attach_verified_bodies E (hooked h s) = attach_verified_bodies E s"
    by (intro ext) (simp add: attach_verified_bodies_def)
  then show rv: "read_verified E C (hooked h s) = read_verified E C s"
    using rr by (simp add: read_verified_def)
  show "reservation_for_sequence E q (hooked h s) = reservation_for_sequence E q s"
    "find_reservation_for_payload E ev p (hooked h s) = find_reservation_for_payload E ev p s"
    "prepared E ev body (hooked h s) = prepared E ev body s"
    "check_commit E r ev p evs (hooked h s) = check_commit E r ev p evs s"
    "store_ok E C (hooked h s) evs = store_ok E C s evs"
    using rr rv
    by (simp_all add: reservation_for_sequence_def find_reservation_for_payload_def prepared_def
        check_commit_def store_ok_def Let_def)
qed

lemma write_hooked [simp]:
  "record_reservation r st (hooked h s) = hooked h (record_reservation r st s)"
  "appended E r ev p prev (hooked h s) = hooked h (appended E r ev p prev s)"
  "seal_blob E d body (hooked h s) = map_prod id (hooked h) (seal_blob E d body s)"
  by (auto simp: record_reservation_def hooked_def appended_def seal_blob_def split: option.split)

lemma recover_hooked:
  "recover_and_return E prior (hooked h s) = map_prod id (hooked h) (recover_and_return E prior s)"
  by (auto simp: recover_and_return_def recover_reservation_locked_def split: sum.split option.split prod.split)

text \<open>Without a hook a commit that passes its checks goes through.\<close>

lemma commit_locked_unhooked:
  assumes "commit_locked E r ev p b evs (unhooked s) = (Inr c, s')"
  obtains s1 where "check_commit E r ev p evs s = Inr ()" "seal_blob E (rv_blob_digest r) b s = (Inr (), s1)"
    "s' = unhooked (record_reservation r (Some COMMITTED) (appended E r ev p (last_digest evs) s1))"
    "c = (written E r ev p b (last_digest evs) (st_run_id s))
           \<lparr>ce_blob_digest := rv_blob_digest r, ce_blob_bytes := rv_blob_bytes r\<rparr>"
  using assms
  by (cases "seal_blob E (rv_blob_digest r) b s"; cases "fst (seal_blob E (rv_blob_digest r) b s)")
     (auto simp: commit_locked_unfold Let_def split: sum.splits)

lemma commit_locked_crashed:
  assumes "commit_locked E r ev p b evs (hooked h s) = (Inl e, s')"
    and "check_commit E r ev p evs s = Inr ()" "seal_blob E (rv_blob_digest r) b s = (Inr (), s1)"
  shows "s' = hooked h s1 \<or> s' = hooked h (appended E r ev p (last_digest evs) s1)"
  using assms by (auto simp: commit_locked_unfold Let_def split: option.splits)

lemma seal_blob_again:
  assumes "seal_blob E d b s = (Inr u, s1)" "sha_bytes E b = d"
  shows "seal_blob E d b s1 = (Inr (), s1)"
  using seal_blob_Inr(2) [OF assms(1)] assms(2) by (simp add: seal_blob_def guard_res_def)

lemma reservation_found:
  assumes "find_reservation_for_payload E ev p s = Inr None" "reserve_locked E C ev p evs None s = (out, s')"
    "s' \<noteq> s" "store_ok E C s evs" "pget p ''blob_digest'' = JStr d" "pget p ''blob_bytes'' = JInt n"
  obtains r where "find_reservation_for_payload E ev p s' = Inr (Some r)"
    "reserve_locked E C ev p evs None (unhooked s) = (Inr r, unhooked s')"
proof -
  obtain k rows q where q: "C (ev_type ev) = Some k" "read_reservations E s = Inr rows"
    "new_reservation E k (st_run_id s) ev p evs rows None = Inr q" "s' = record_reservation q None s"
    using reserve_locked_cases [OF assms(2)] assms(3) by blast
  have none: "filter (reservation_matches E (st_run_id s) ev p) rows = []"
    using assms(1) q(2) by (auto simp: find_reservation_for_payload_def split: list.splits)
  have "reservation_matches E (st_run_id s) ev p q"
    using q(3) assms(5,6)
    by (auto simp: new_reservation_def Let_def bind_res_Inr_iff reservation_matches_def pidx_def pget_def
        py_str_def py_eq_int_def split: option.splits)
  moreover have "reserve_locked E C ev p evs None (unhooked s) = (Inr q, unhooked s')"
    using q by (simp add: reserve_locked_def Let_def)
  moreover have "read_reservations E s' = Inr (rows @ [q])"
    using reserve_locked_ok(7) [OF _ \<open>reserve_locked E C ev p evs None (unhooked s) = (Inr q, unhooked s')\<close>, of q]
      assms(4) q(2) by simp
  ultimately show thesis
    using that none q(4) by (simp add: find_reservation_for_payload_def)
qed

lemma append_resumes:
  assumes "read_verified E C s = Inr evs" "prepared E ev body s = (b, p)" "fresh_event C ev p evs"
    "find_reservation_for_payload E ev p s = Inr (Some r)"
  shows "append E C ev body s = commit_locked E r ev p b evs s"
  using assms by (simp add: append_def append_new_def fresh_event_def)

lemma append_reserves:
  assumes "read_verified E C s = Inr evs" "prepared E ev body s = (b, p)" "fresh_event C ev p evs"
    "find_reservation_for_payload E ev p s = Inr None" "reserve_locked E C ev p evs None s = (Inr r, s')"
  shows "append E C ev body s = commit_locked E r ev p b evs s'"
  using assms by (simp add: append_def append_new_def fresh_event_def)

lemma check_commit_cong:
  "st_run_id s' = st_run_id s \<Longrightarrow> check_commit E r ev p evs s' = check_commit E r ev p evs s"
  by (simp add: check_commit_def Let_def)

lemma hooked_same: "hooked (st_hook s) s = s"
  by (simp add: hooked_def)

lemma prepared_cong: "st_redactor s' = st_redactor s \<Longrightarrow> prepared E ev body s' = prepared E ev body s"
  by (simp add: prepared_def)

text \<open>A commit that a hook interrupted is completed by the same append, from either store it can
  leave behind.\<close>

lemma commit_retry:
  assumes site: "commit_site E C s evs rows r ev p b" and fresh: "fresh_event C ev p evs"
    and p: "prepared E ev body s = (b, p)" and found: "find_reservation_for_payload E ev p s = Inr (Some r)"
    and clean: "commit_locked E r ev p b evs (unhooked s) = (Inr c, s1)"
    and crash: "commit_locked E r ev p b evs (hooked h s) = (Inl e, s2)"
  shows "\<exists>c' s3. append E C ev body (unhooked s2) = (Inr c', s3) \<and> as_read c' = as_read c
           \<and> st_events s3 = st_events s1"
proof -
  obtain t where t: "check_commit E r ev p evs s = Inr ()" "seal_blob E (rv_blob_digest r) b s = (Inr (), t)"
    "s1 = unhooked (record_reservation r (Some COMMITTED) (appended E r ev p (last_digest evs) t))"
    "c = (written E r ev p b (last_digest evs) (st_run_id s))\<lparr>ce_blob_digest := rv_blob_digest r, ce_blob_bytes := rv_blob_bytes r\<rparr>"
    using commit_locked_unhooked [OF clean] by blast
  note chk = check_commit_Inr [OF t(1) commit_siteD(5,6) [OF site]] and f = seal_blob_fields [OF t(2)]
  have seal: "seal_blob E (sha_bytes E b) b s = (Inr (), t)" using t(2) chk(3) by simp
  note site' = sealed_ok(1) [OF site seal]
  have pt: "prepared E ev body t = (b, p)" using prepared_cong [OF f(5)] p by simp
  have c: "c = written E r ev p b (last_digest evs) (st_run_id t)"
    using t(4) chk f(1) by (simp add: written_def)
  from commit_locked_crashed [OF crash t(1,2)] show ?thesis
  proof
    assume s2: "s2 = hooked h t"
    have "find_reservation_for_payload E ev p (unhooked t) = Inr (Some r)"
      using found f(1) read_reservations_cong [OF f(3,1)] by (simp add: find_reservation_for_payload_def)
    then have "append E C ev body (unhooked t) = commit_locked E r ev p b evs (unhooked t)"
      using append_resumes [of E C "unhooked t" evs] commit_siteD(8) [OF site'] pt fresh by simp
    moreover have "check_commit E r ev p evs t = Inr ()"
      using t(1) check_commit_cong [OF f(1)] by simp
    ultimately show ?thesis
      using seal_blob_again [OF seal] chk(3) s2 t(3,4) f(1) by (simp add: commit_locked_unfold Let_def)
  next
    assume s2: "s2 = hooked h (appended E r ev p (last_digest evs) t)"
    let ?s = "unhooked (appended E r ev p (last_digest evs) t)"
    have ok: "store_ok E C ?s (evs @ [as_read c])"
      using appended_ok [OF site' chk(2) seal_blob_Inr(2) [OF seal]] c by simp
    have "find_exact_identity (evs @ [as_read c]) ev p = Some (as_read c)"
      using fresh c by (simp add: fresh_event_def find_exact_identity_def find_append written_def)
    moreover have "prepared E ev body ?s = (b, p)" using prepared_cong [of ?s t] pt by simp
    moreover obtain s3 where "recover_and_return E (as_read c) ?s = (Inr (as_read c), s3)" "st_events s3 = st_events ?s"
      using recover_and_return_ok [OF ok, of "as_read c"] by auto
    ultimately show ?thesis
      using ok s2 t(3) by (simp add: append_def store_ok_def as_read_def)
  qed
qed

lemma append_retry:
  assumes ok: "reads_by_key C" "store_ok E C s evs" "appendable E C ev body evs s"
    and clean: "append E C ev body (unhooked s) = (Inr c, s1)"
    and crash: "append E C ev body (hooked h s) = (Inl e, s2)"
  shows "\<exists>c' s3. append E C ev body (unhooked s2) = (Inr c', s3) \<and> as_read c' = as_read c
           \<and> st_events s3 = st_events s1"
proof -
  obtain b p where p: "prepared E ev body s = (b, p)" by fastforce
  have read: "read_verified E C s = Inr evs" using ok(2) by (simp add: store_ok_def)
  have ap: "appendable E C ev body evs (hooked h s)" for h using ok(3) by (simp add: appendable_def)
  have fields: "pget p ''blob_digest'' = JStr (sha_bytes E b)" "pget p ''blob_bytes'' = JInt (int (length b))"
    using ok(3) p by (simp_all add: appendable_def)
  have same: ?thesis if "s2 = hooked h s"
    using clean that by auto
  have reserved: ?thesis
    if fresh: "fresh_event C ev p evs" and none: "find_reservation_for_payload E ev p s = Inr None"
      and res: "reserve_locked E C ev p evs None (hooked h s) = (out, sr)" "sr \<noteq> hooked h s"
      and s2: "s2 = sr \<or> (\<exists>r. out = Inr r \<and> commit_locked E r ev p b evs sr = (Inl e, s2))" for out sr
  proof -
    obtain r where r: "find_reservation_for_payload E ev p sr = Inr (Some r)"
      "reserve_locked E C ev p evs None (unhooked s) = (Inr r, unhooked sr)"
      using reservation_found [OF _ res, of "sha_bytes E b" "int (length b)"] none ok(2) fields by auto
    have cl: "commit_locked E r ev p b evs (unhooked sr) = (Inr c, s1)"
      using append_reserves [of E C "unhooked s" evs ev body b p r] read p fresh none r(2) clean by simp
    obtain rows where site: "commit_site E C (unhooked sr) evs rows r ev p b"
      using reserved_site [OF ok(1) _ ap _ r(2)] ok(2) p by auto
    have psr: "prepared E ev body sr = (b, p)"
      using prepared_cong [of sr s] reserve_locked_ok(6) [OF _ res(1)] ok(2) p by simp
    have rd: "read_verified E C sr = Inr evs"
      using commit_siteD(8) [OF site] by simp
    have hk: "hooked h sr = sr"
      using hooked_same [of sr] reserve_locked_ok(5) [OF _ res(1)] ok(2) by simp
    from s2 show ?thesis
    proof
      assume "s2 = sr"
      then show ?thesis
        using append_resumes [of E C "unhooked sr" evs ev body b p r] rd psr fresh r(1) cl by simp
    next
      assume "\<exists>q. out = Inr q \<and> commit_locked E q ev p b evs sr = (Inl e, s2)"
      then obtain q where q: "out = Inr q" "commit_locked E q ev p b evs sr = (Inl e, s2)" by blast
      have "q = r"
        using reserve_locked_cases [OF res(1)] reserve_locked_cases [OF r(2)] q(1) res(2) by (auto split: option.splits)
      then show ?thesis
        using commit_retry [OF site fresh _ _ _ _, of body c s1 h e s2] psr r(1) cl q(2) hk by simp
    qed
  qed
  have "read_verified E C (hooked h s) = Inr evs" "prepared E ev body (hooked h s) = (b, p)"
    using read p by simp_all
  from append_cases [OF this crash] show ?thesis
  proof (elim disjE bexE exE conjE)
    fix prior assume "prior \<in> set evs" "(Inl e, s2) = recover_and_return E prior (hooked h s)"
    then show ?thesis using recover_and_return_ok [of E C "hooked h s" evs prior] ok(2) by auto
  next
    fix r sr assume en: "enters_commit E C ev p evs (hooked h s) r sr" "commit_locked E r ev p b evs sr = (Inl e, s2)"
    show ?thesis
    proof (cases "find_reservation_for_payload E ev p s = Inr (Some r) \<and> sr = hooked h s")
      case True
      have fresh: "fresh_event C ev p evs" using en(1) by (simp add: enters_commit_def)
      obtain rows where "commit_site E C s evs rows r ev p b"
        using find_reservation_in True appendable_site [OF ok p] by blast
      moreover have "commit_locked E r ev p b evs (unhooked s) = (Inr c, s1)"
        using append_resumes [of E C "unhooked s" evs ev body b p r] read p fresh True clean by simp
      ultimately show ?thesis using commit_retry fresh p True en(2) by blast
    next
      case False
      then have "fresh_event C ev p evs" "find_reservation_for_payload E ev p s = Inr None"
        "reserve_locked E C ev p evs None (hooked h s) = (Inr r, sr)"
        using en(1) by (auto simp: enters_commit_def)
      moreover from this have "sr \<noteq> hooked h s"
        using reserve_locked_ok(7) [of E C "hooked h s" evs ev p "Inr r" sr r] ok(2) by auto
      ultimately show ?thesis using reserved en(2) by blast
    qed
  next
    fix e' assume "fresh_event C ev p evs" "find_reservation_for_payload E ev p (hooked h s) = Inr None"
      "reserve_locked E C ev p evs None (hooked h s) = (Inl e', s2)"
    then show ?thesis using reserved same by (cases "s2 = hooked h s") auto
  qed (use same in auto)
qed

lemma recover_redactor: "recover_and_return E prior s = (out, s') \<Longrightarrow> st_redactor s' = st_redactor s"
  by (auto simp: recover_and_return_def recover_reservation_locked_def split: sum.splits option.splits prod.splits if_splits)

lemma reserve_redactor: "reserve_locked E C ev p evs sq s = (out, s') \<Longrightarrow> st_redactor s' = st_redactor s"
  by (drule reserve_locked_cases) auto

lemma commit_redactor:
  assumes "commit_locked E r ev p b evs s = (out, s')"
  shows "st_redactor s' = st_redactor s"
proof -
  obtain o1 s1 where seal: "seal_blob E (rv_blob_digest r) b s = (o1, s1)" by fastforce
  show ?thesis
    using assms seal seal_blob_fields(5) [OF seal]
    by (auto simp: commit_locked_unfold Let_def split: sum.splits option.splits)
qed

lemma append_redactor:
  assumes "append E C ev body s = (out, s')"
  shows "st_redactor s' = st_redactor s"
  using assms recover_redactor reserve_redactor commit_redactor
  by (fastforce simp: append_def append_new_def Let_def split: sum.splits option.splits prod.splits)

lemma append_fresh:
  assumes "read_verified E C s = Inr evs" "prepared E ev body s = (b, p)" "fresh_event C ev p evs"
    "append E C ev body s = (Inr c, s')"
  shows "\<exists>r sr. enters_commit E C ev p evs s r sr \<and> commit_locked E r ev p b evs sr = (Inr c, s')"
proof (cases "find_reservation_for_payload E ev p s")
  case (Inl e)
  then show ?thesis using assms by (simp add: append_def append_new_def fresh_event_def)
next
  case (Inr ro)
  show ?thesis
  proof (cases ro)
    case (Some r)
    then show ?thesis
      using assms Inr append_resumes [OF assms(1-3)] by (auto simp: enters_commit_def)
  next
    case None
    obtain o2 s2 where r2: "reserve_locked E C ev p evs None s = (o2, s2)" by fastforce
    then show ?thesis
      using assms Inr None
      by (cases o2) (auto simp: append_def append_new_def fresh_event_def enters_commit_def)
  qed
qed

end
