(* ===== verification/Event_Contracts.thy ===== *)
theory Event_Contracts
  imports Event_Store_Laws
begin

text \<open>
  The typed events of \<open>solver/event_store_contracts.py\<close>: Observations, Lifecycle facts and
  Work-generation transitions, with the payload each writes and the check each makes of a payload it
  reads, and the registry \<open>event_contract\<close> restricted to them.  The other entries of the Python
  registry are contracts of components whose payloads are not modelled; the store itself is
  proved for every registry whose contracts read payloads by key.
\<close>

section \<open>Field checks\<close>

datatype field_type = FStr | FInt | FBool | FStrNone | FIntNone | FNumNone

text \<open>\<open>isinstance(value, expected)\<close> with bools refused where an integer or a number is wanted.\<close>

fun has_type :: "field_type \<Rightarrow> json \<Rightarrow> bool" where
  "has_type FStr v = is_str v"
| "has_type FInt v = (strict_int v \<noteq> None)"
| "has_type FBool v = (v = JBool True \<or> v = JBool False)"
| "has_type FStrNone v = (is_str v \<or> v = JNull)"
| "has_type FIntNone v = (strict_int v \<noteq> None \<or> v = JNull)"
| "has_type FNumNone v = (strict_int v \<noteq> None \<or> v = JNull \<or> (case v of JFloat _ \<Rightarrow> True | _ \<Rightarrow> False))"

definition check_fields :: "(string \<times> field_type) list \<Rightarrow> payload \<Rightarrow> int \<Rightarrow> unit res" where
  "check_fields wanted p sq =
     bind_res (guard_res (list_all (\<lambda>(f, _). map_of p f \<noteq> None) wanted) (InvalidEventError (Some sq))) (\<lambda>_.
     guard_res (list_all (\<lambda>(f, t). has_type t (pget p f)) wanted) (InvalidEventError (Some sq)))"

definition sval :: "payload \<Rightarrow> string \<Rightarrow> string" where
  "sval p k = (case as_str (pget p k) of Some s \<Rightarrow> s | None \<Rightarrow> '''')"

definition ival :: "payload \<Rightarrow> string \<Rightarrow> int" where
  "ival p k = (case strict_int (pget p k) of Some n \<Rightarrow> n | None \<Rightarrow> 0)"

definition EMPTY_BLOB_DIGEST :: string where
  "EMPTY_BLOB_DIGEST = ''e3b0c44298fc1c149afbf4c8996fb92427ae41e4649b934ca495991b7852b855''"

definition require :: "bool \<Rightarrow> int \<Rightarrow> (unit \<Rightarrow> unit res) \<Rightarrow> unit res" where
  "require b sq k = bind_res (guard_res b (InvalidEventError (Some sq))) k"

lemma has_type_canon [simp]: "has_type t (canon v) = has_type t v"
  by (cases t; cases v) simp_all

lemma sval_canon [simp]: "sval (canon_dict p) k = sval p k"
  by (simp add: sval_def)

lemma ival_canon [simp]: "ival (canon_dict p) k = ival p k"
  by (simp add: ival_def)

lemma check_fields_canon [simp]: "check_fields fs (canon_dict p) n = check_fields fs p n"
  by (simp add: check_fields_def)

section \<open>Observations\<close>

record ObservationRecorded =
  ob_attempt_id :: string
  ob_step_index :: int
  ob_command_raw :: string
  ob_command_normalised :: string
  ob_tool :: string
  ob_source :: string
  ob_exit_code :: "int option"
  ob_duration_ms :: int
  ob_checkpoint :: "string option"
  ob_model :: string
  ob_tokens_in :: int
  ob_tokens_out :: int
  ob_cache_read :: int
  ob_cache_write :: int
  ob_usage_known :: bool
  ob_ts :: "string option"
  ob_mono :: "rat option"
  ob_event_id :: "string option"

definition opt_json :: "('a \<Rightarrow> json) \<Rightarrow> 'a option \<Rightarrow> json" where
  "opt_json f v = (case v of None \<Rightarrow> JNull | Some x \<Rightarrow> f x)"

definition observation_payload :: "ObservationRecorded \<Rightarrow> string \<Rightarrow> int \<Rightarrow> payload" where
  "observation_payload ob blob_digest blob_bytes =
     [(''attempt_id'', JStr (ob_attempt_id ob)), (''step_index'', JInt (ob_step_index ob)),
      (''command_raw'', JStr (ob_command_raw ob)),
      (''command_normalised'', JStr (ob_command_normalised ob)),
      (''tool'', JStr (ob_tool ob)), (''source'', JStr (ob_source ob)),
      (''exit_code'', opt_json JInt (ob_exit_code ob)), (''duration_ms'', JInt (ob_duration_ms ob)),
      (''checkpoint'', opt_json JStr (ob_checkpoint ob)), (''model'', JStr (ob_model ob)),
      (''tokens_in'', JInt (ob_tokens_in ob)), (''tokens_out'', JInt (ob_tokens_out ob)),
      (''cache_read'', JInt (ob_cache_read ob)), (''cache_write'', JInt (ob_cache_write ob)),
      (''usage_known'', JBool (ob_usage_known ob)), (''ts'', opt_json JStr (ob_ts ob)),
      (''mono'', opt_json JFloat (ob_mono ob)), (''blob_digest'', JStr blob_digest),
      (''blob_bytes'', JInt blob_bytes), (''event_id'', opt_json JStr (ob_event_id ob))]"

definition observation_fields :: "(string \<times> field_type) list" where
  "observation_fields =
     [(''attempt_id'', FStr), (''step_index'', FInt), (''command_raw'', FStr),
      (''command_normalised'', FStr), (''tool'', FStr), (''source'', FStr),
      (''exit_code'', FIntNone), (''duration_ms'', FInt), (''checkpoint'', FStrNone),
      (''model'', FStr), (''tokens_in'', FInt), (''tokens_out'', FInt), (''cache_read'', FInt),
      (''cache_write'', FInt), (''usage_known'', FBool), (''ts'', FStrNone), (''mono'', FNumNone),
      (''blob_digest'', FStr), (''blob_bytes'', FInt), (''event_id'', FStrNone)]"

definition validate_observation :: "payload \<Rightarrow> int \<Rightarrow> unit res" where
  "validate_observation p sq =
     bind_res (check_fields observation_fields p sq) (\<lambda>_.
     require (lowercase_sha256 (sval p ''blob_digest'')) sq (\<lambda>_.
     require (\<not> (ival p ''step_index'' < 1 \<or> ival p ''duration_ms'' < 0
                \<or> list_ex (\<lambda>f. ival p f < 0)
                    [''tokens_in'', ''tokens_out'', ''cache_read'', ''cache_write'', ''blob_bytes''])) sq (\<lambda>_.
     Inr ())))"

text \<open>\<open>str(payload.get("attempt_id", ""))\<close> and \<open>int(payload.get("step_index", -1))\<close> on a validated
  payload.\<close>

definition observation_contract :: contract where
  "observation_contract =
     \<lparr>validate_payload = validate_observation,
      identity_from_payload = (\<lambda>p. JArr [JStr (sval p ''attempt_id''), JInt (ival p ''step_index'')]),
      exact_payload_identity = False\<rparr>"

definition observation_event :: "ObservationRecorded \<Rightarrow> CanonicalEvent" where
  "observation_event ob =
     \<lparr>ev_type = ''observation.recorded'',
      ev_identity = JArr [JStr (ob_attempt_id ob), JInt (ob_step_index ob)],
      ev_event_id = ob_event_id ob, ev_payload = observation_payload ob\<rparr>"

section \<open>Lifecycle facts\<close>

datatype TerminalDisposition = NORMAL | REFUSED | INTERRUPTED | CRASHED

datatype ForwardedSignal = SIG_TERM | SIG_INT

datatype ServiceName =
    VERIFIED_REPLAY | STORAGE_ADMISSION | STRICT_ISOLATION | CREDENTIAL_CUSTODY | RUN_CONTROLLER

datatype LifecycleFact =
    RunOpened
  | ServiceStarted string ServiceName
  | BootOpened string
  | SignalForwarded string ForwardedSignal
  | ChildReaped string int
  | BootClosed string TerminalDisposition string
  | RunClosed TerminalDisposition string

fun disposition_value :: "TerminalDisposition \<Rightarrow> string" where
  "disposition_value NORMAL = ''normal''"
| "disposition_value REFUSED = ''refused''"
| "disposition_value INTERRUPTED = ''interrupted''"
| "disposition_value CRASHED = ''crashed''"

fun signal_value :: "ForwardedSignal \<Rightarrow> string" where
  "signal_value SIG_TERM = ''SIGTERM''"
| "signal_value SIG_INT = ''SIGINT''"

fun service_value :: "ServiceName \<Rightarrow> string" where
  "service_value VERIFIED_REPLAY = ''verified-replay''"
| "service_value STORAGE_ADMISSION = ''storage-admission''"
| "service_value STRICT_ISOLATION = ''strict-isolation''"
| "service_value CREDENTIAL_CUSTODY = ''credential-custody''"
| "service_value RUN_CONTROLLER = ''run-controller''"

definition lifecycle_records :: "string list" where
  "lifecycle_records =
     [''run-open'', ''service-started'', ''boot-open'', ''signal-forwarded'', ''child-reaped'',
      ''boot-close'', ''run-close'']"

definition lifecycle_base :: "string \<Rightarrow> string \<Rightarrow> string \<Rightarrow> int \<Rightarrow> payload" where
  "lifecycle_base event_id ts blob_digest blob_bytes =
     [(''event_id'', JStr event_id), (''record'', JStr ''''), (''boot_id'', JStr ''''),
      (''service'', JStr ''''), (''disposition'', JStr ''''), (''signal'', JStr ''''),
      (''reaped_children'', JInt 0), (''detail'', JStr ''''), (''ts'', JStr ts),
      (''blob_digest'', JStr blob_digest), (''blob_bytes'', JInt blob_bytes)]"

fun lifecycle_update :: "LifecycleFact \<Rightarrow> payload \<Rightarrow> payload" where
  "lifecycle_update RunOpened p = dict_set ''record'' (JStr ''run-open'') p"
| "lifecycle_update (ServiceStarted boot service) p =
     dict_set ''service'' (JStr (service_value service))
       (dict_set ''boot_id'' (JStr boot) (dict_set ''record'' (JStr ''service-started'') p))"
| "lifecycle_update (BootOpened boot) p =
     dict_set ''boot_id'' (JStr boot) (dict_set ''record'' (JStr ''boot-open'') p)"
| "lifecycle_update (SignalForwarded boot signal) p =
     dict_set ''signal'' (JStr (signal_value signal))
       (dict_set ''boot_id'' (JStr boot) (dict_set ''record'' (JStr ''signal-forwarded'') p))"
| "lifecycle_update (ChildReaped boot n) p =
     dict_set ''reaped_children'' (JInt n)
       (dict_set ''boot_id'' (JStr boot) (dict_set ''record'' (JStr ''child-reaped'') p))"
| "lifecycle_update (BootClosed boot d detail) p =
     dict_set ''detail'' (JStr detail) (dict_set ''disposition'' (JStr (disposition_value d))
       (dict_set ''boot_id'' (JStr boot) (dict_set ''record'' (JStr ''boot-close'') p)))"
| "lifecycle_update (RunClosed d detail) p =
     dict_set ''detail'' (JStr detail) (dict_set ''disposition'' (JStr (disposition_value d))
       (dict_set ''record'' (JStr ''run-close'') p))"

definition lifecycle_event :: "string \<Rightarrow> LifecycleFact \<Rightarrow> string \<Rightarrow> CanonicalEvent" where
  "lifecycle_event event_id lf ts =
     \<lparr>ev_type = ''lifecycle.recorded'', ev_identity = JStr event_id, ev_event_id = Some event_id,
      ev_payload = (\<lambda>d n. lifecycle_update lf (lifecycle_base event_id ts d n))\<rparr>"

definition lifecycle_fields :: "(string \<times> field_type) list" where
  "lifecycle_fields =
     [(''event_id'', FStr), (''record'', FStr), (''boot_id'', FStr), (''service'', FStr),
      (''disposition'', FStr), (''signal'', FStr), (''reaped_children'', FInt), (''detail'', FStr),
      (''ts'', FStr), (''blob_digest'', FStr), (''blob_bytes'', FInt)]"

definition validate_lifecycle :: "payload \<Rightarrow> int \<Rightarrow> unit res" where
  "validate_lifecycle p sq =
     (let record = sval p ''record'' in
      bind_res (check_fields lifecycle_fields p sq) (\<lambda>_.
      require (sval p ''event_id'' \<noteq> [] \<and> record \<in> set lifecycle_records) sq (\<lambda>_.
      require (\<not> (ival p ''reaped_children'' < 0 \<or> ival p ''blob_bytes'' < 0)) sq (\<lambda>_.
      require (lowercase_sha256 (sval p ''blob_digest'')) sq (\<lambda>_.
      require (ival p ''blob_bytes'' = 0 \<and> sval p ''blob_digest'' = EMPTY_BLOB_DIGEST) sq (\<lambda>_.
      require (if record \<in> {''boot-close'', ''run-close''}
               then sval p ''disposition'' \<in> set (map disposition_value [NORMAL, REFUSED, INTERRUPTED, CRASHED])
               else sval p ''disposition'' = []) sq (\<lambda>_.
      require (if record \<in> {''service-started'', ''boot-open'', ''signal-forwarded'', ''child-reaped'', ''boot-close''}
               then sval p ''boot_id'' \<noteq> [] else sval p ''boot_id'' = []) sq (\<lambda>_.
      require ((record = ''service-started'') = (sval p ''service'' \<noteq> [])) sq (\<lambda>_.
      require (if record = ''signal-forwarded''
               then sval p ''signal'' \<in> set (map signal_value [SIG_TERM, SIG_INT])
               else sval p ''signal'' = []) sq (\<lambda>_.
      require (\<not> (record \<noteq> ''child-reaped'' \<and> ival p ''reaped_children'' \<noteq> 0)) sq (\<lambda>_.
      Inr ())))))))))))"

definition lifecycle_contract :: contract where
  "lifecycle_contract =
     \<lparr>validate_payload = validate_lifecycle, identity_from_payload = (\<lambda>p. JStr (sval p ''event_id'')),
      exact_payload_identity = False\<rparr>"

section \<open>Work-generation transitions\<close>

datatype GenerationDisposition = COMPLETE | INTERRUPT | SUPERSEDE | ABANDON

datatype GenerationAuthority = CARRY | CANDIDATE | TOOL | AUTHORITY_KIND

datatype GenerationRecord = ACQUIRE | CLOSE | AUTHORITY | LATE_EVENT

datatype GenerationClassification = CURRENT | CLOSED | SUPERSEDED

fun gen_disposition_value :: "GenerationDisposition \<Rightarrow> string" where
  "gen_disposition_value COMPLETE = ''complete''"
| "gen_disposition_value INTERRUPT = ''interrupt''"
| "gen_disposition_value SUPERSEDE = ''supersede''"
| "gen_disposition_value ABANDON = ''abandon''"

fun gen_authority_value :: "GenerationAuthority \<Rightarrow> string" where
  "gen_authority_value CARRY = ''carry''"
| "gen_authority_value CANDIDATE = ''candidate''"
| "gen_authority_value TOOL = ''tool''"
| "gen_authority_value AUTHORITY_KIND = ''authority''"

fun gen_record_value :: "GenerationRecord \<Rightarrow> string" where
  "gen_record_value ACQUIRE = ''acquire''"
| "gen_record_value CLOSE = ''close''"
| "gen_record_value AUTHORITY = ''authority''"
| "gen_record_value LATE_EVENT = ''late-event''"

fun gen_classification_value :: "GenerationClassification \<Rightarrow> string" where
  "gen_classification_value CURRENT = ''current-generation''"
| "gen_classification_value CLOSED = ''closed-generation''"
| "gen_classification_value SUPERSEDED = ''superseded-generation''"

definition all_dispositions :: "GenerationDisposition list" where
  "all_dispositions = [COMPLETE, INTERRUPT, SUPERSEDE, ABANDON]"

definition all_authorities :: "GenerationAuthority list" where
  "all_authorities = [CARRY, CANDIDATE, TOOL, AUTHORITY_KIND]"

definition all_records :: "GenerationRecord list" where
  "all_records = [ACQUIRE, CLOSE, AUTHORITY, LATE_EVENT]"

record WorkGenerationRecorded =
  wg_event_id :: string
  wg_generation_id :: string
  wg_work_id :: string
  wg_attempt_id :: string
  wg_record :: GenerationRecord
  wg_disposition :: "GenerationDisposition option"
  wg_authority :: "GenerationAuthority option"
  wg_classification :: "GenerationClassification option"
  wg_ts :: string

definition opt_value :: "('a \<Rightarrow> string) \<Rightarrow> 'a option \<Rightarrow> string" where
  "opt_value f v = (case v of None \<Rightarrow> '''' | Some x \<Rightarrow> f x)"

definition generation_payload :: "WorkGenerationRecorded \<Rightarrow> string \<Rightarrow> int \<Rightarrow> payload" where
  "generation_payload g blob_digest blob_bytes =
     [(''event_id'', JStr (wg_event_id g)), (''generation_id'', JStr (wg_generation_id g)),
      (''work_id'', JStr (wg_work_id g)), (''attempt_id'', JStr (wg_attempt_id g)),
      (''record'', JStr (gen_record_value (wg_record g))),
      (''disposition'', JStr (opt_value gen_disposition_value (wg_disposition g))),
      (''authority'', JStr (opt_value gen_authority_value (wg_authority g))),
      (''classification'', JStr (opt_value gen_classification_value (wg_classification g))),
      (''ts'', JStr (wg_ts g)), (''blob_digest'', JStr blob_digest), (''blob_bytes'', JInt blob_bytes)]"

definition generation_event :: "WorkGenerationRecorded \<Rightarrow> CanonicalEvent" where
  "generation_event g =
     \<lparr>ev_type = ''work-generation.recorded'', ev_identity = JStr (wg_event_id g),
      ev_event_id = Some (wg_event_id g), ev_payload = generation_payload g\<rparr>"

definition generation_fields :: "(string \<times> field_type) list" where
  "generation_fields =
     [(''event_id'', FStr), (''generation_id'', FStr), (''work_id'', FStr), (''attempt_id'', FStr),
      (''record'', FStr), (''disposition'', FStr), (''authority'', FStr), (''classification'', FStr),
      (''ts'', FStr), (''blob_digest'', FStr), (''blob_bytes'', FInt)]"

definition require_empty_body :: "payload \<Rightarrow> int \<Rightarrow> unit res" where
  "require_empty_body p sq =
     require (ival p ''blob_bytes'' = 0 \<and> sval p ''blob_digest'' = EMPTY_BLOB_DIGEST) sq (\<lambda>_. Inr ())"

definition validate_generation :: "payload \<Rightarrow> int \<Rightarrow> unit res" where
  "validate_generation p sq =
     (let record = sval p ''record'' in
      bind_res (check_fields generation_fields p sq) (\<lambda>_.
      require (list_all (\<lambda>f. sval p f \<noteq> []) [''event_id'', ''generation_id'', ''work_id'', ''attempt_id'']) sq (\<lambda>_.
      require (record \<in> set (map gen_record_value all_records)) sq (\<lambda>_.
      require (\<not> ival p ''blob_bytes'' < 0) sq (\<lambda>_.
      require (lowercase_sha256 (sval p ''blob_digest'')) sq (\<lambda>_.
      if record = ''acquire'' then
        require (list_all (\<lambda>f. sval p f = []) [''disposition'', ''authority'', ''classification'']) sq (\<lambda>_.
        require_empty_body p sq)
      else if record = ''close'' then
        require (sval p ''disposition'' \<in> set (map gen_disposition_value all_dispositions)) sq (\<lambda>_.
        require (sval p ''authority'' = [] \<and> sval p ''classification'' = []) sq (\<lambda>_.
        require_empty_body p sq))
      else if record = ''authority'' then
        require (sval p ''disposition'' = []) sq (\<lambda>_.
        require (sval p ''authority'' \<in> set (map gen_authority_value all_authorities)) sq (\<lambda>_.
        require (sval p ''classification'' = ''current-generation'') sq (\<lambda>_.
        require_empty_body p sq)))
      else
        require (sval p ''disposition'' = []) sq (\<lambda>_.
        require (sval p ''authority'' \<in> set (map gen_authority_value all_authorities)) sq (\<lambda>_.
        require (sval p ''classification'' \<in> {''closed-generation'', ''superseded-generation''}) sq (\<lambda>_.
        Inr ())))))))))"

definition generation_contract :: contract where
  "generation_contract =
     \<lparr>validate_payload = validate_generation, identity_from_payload = (\<lambda>p. JStr (sval p ''event_id'')),
      exact_payload_identity = False\<rparr>"

section \<open>The registry\<close>

definition event_contract :: registry where
  "event_contract event_type =
     (if event_type = ''observation.recorded'' then Some observation_contract
      else if event_type = ''lifecycle.recorded'' then Some lifecycle_contract
      else if event_type = ''work-generation.recorded'' then Some generation_contract
      else None)"

lemma validate_canon [simp]:
  "validate_observation (canon_dict p) n = validate_observation p n"
  "validate_lifecycle (canon_dict p) n = validate_lifecycle p n"
  "validate_generation (canon_dict p) n = validate_generation p n"
  by (simp_all only: validate_observation_def validate_lifecycle_def validate_generation_def
      require_empty_body_def Let_def sval_canon ival_canon check_fields_canon)

lemma event_contract_keyed: "reads_by_key event_contract"
  by (simp add: reads_by_key_def event_contract_def observation_contract_def lifecycle_contract_def
      generation_contract_def)

end
