(* ===== verification/Event_Store_Properties.thy ===== *)
theory Event_Store_Properties
  imports Event_Contracts
begin

text \<open>
  The properties of the canonical event store, each with an instance on the modelled contracts.  The
  instances use a store with the Lifecycle contract and a toy digest: a document is named by its
  rendering, and the empty body by its SHA-256 name.
\<close>

section \<open>Recorded events answer for themselves\<close>

text \<open>The event that already stands for a proposed one, if any.\<close>

definition recorded_as :: "registry \<Rightarrow> CommittedEvent list \<Rightarrow> CanonicalEvent \<Rightarrow> payload \<Rightarrow> CommittedEvent option res" where
  "recorded_as C evs ev p =
     (case find_exact_identity evs ev p of
        Some prior \<Rightarrow> Inr (Some prior)
      | None \<Rightarrow> bind_res (refuse_after_terminal evs) (\<lambda>_. find_identity C evs ev p))"

lemma append_recorded:
  assumes "read_verified E C s = Inr evs" "prepared E ev body s = (b, p)"
    "recorded_as C evs ev p = Inr (Some prior)"
  shows "append E C ev body s = recover_and_return E prior s" "prior \<in> set evs"
  using assms find_exact_identity_in find_identity_in
  by (auto simp: recorded_as_def append_def append_new_def bind_res_Inr_iff split: option.splits)

lemma fresh_event_iff: "fresh_event C ev p evs \<longleftrightarrow> recorded_as C evs ev p = Inr None"
  by (auto simp: fresh_event_def recorded_as_def bind_res_Inr_iff split: option.splits)

lemma append_refused:
  assumes "read_verified E C s = Inr evs" "prepared E ev body s = (b, p)" "recorded_as C evs ev p = Inl e"
  shows "append E C ev body s = (Inl e, s)"
  using assms by (auto simp: recorded_as_def append_def append_new_def split: option.splits)

lemma recorded_as_exact:
  assumes "find_exact_identity evs ev p = None" "same_dict (ce_payload c) p" "ce_event_type c = ev_type ev"
  shows "recorded_as C (evs @ [c]) ev p = Inr (Some c)"
  using assms by (simp add: recorded_as_def find_exact_identity_def find_append)

lemma append_idempotent_ok:
  assumes ok: "reads_by_key C" "store_ok E C s evs" "appendable E C ev body evs s"
    and run: "append E C ev body s = (Inr c, s')"
  shows "\<exists>c' s''. append E C ev body s' = (Inr c', s'') \<and> as_read c' = as_read c \<and> st_events s'' = st_events s'"
proof -
  obtain b p where p: "prepared E ev body s = (b, p)" by fastforce
  have read: "read_verified E C s = Inr evs" using ok(2) by (simp add: store_ok_def)
  show ?thesis
  proof (cases "recorded_as C evs ev p")
    case (Inl e)
    then show ?thesis using append_refused [OF read p] run by simp
  next
    case (Inr ro)
    show ?thesis
    proof (cases ro)
      case (Some prior)
      note rec = append_recorded [OF read p Inr [unfolded Some]]
      obtain s1 where s1: "recover_and_return E prior s = (Inr prior, s1)" "store_ok E C s1 evs"
        using recover_and_return_ok [OF ok(2) rec(2)] by blast
      then have eq: "c = prior" "s' = s1" using run rec(1) by auto
      have "prepared E ev body s1 = (b, p)"
        using p prepared_cong [of s1 s] recover_redactor [OF s1(1)] by simp
      then have "append E C ev body s1 = recover_and_return E prior s1"
        using append_recorded(1) [OF _ _ Inr [unfolded Some]] s1(2) by (simp add: store_ok_def)
      then show ?thesis using recover_and_return_ok [OF s1(2) rec(2)] eq by auto
    next
      case None
      then have fresh: "fresh_event C ev p evs" using Inr by (simp add: fresh_event_iff)
      obtain r sr where en: "enters_commit E C ev p evs s r sr" "commit_locked E r ev p b evs sr = (Inr c, s')"
        using append_fresh [OF read p fresh run] by blast
      obtain rows where site: "commit_site E C sr evs rows r ev p b"
        using enters_commit_site [OF ok p en(1)] by blast
      have c: "c = written E r ev p b (last_digest evs) (st_run_id sr)" "store_ok E C s' (evs @ [as_read c])"
        using commit_locked_ok [OF site en(2)] by auto
      have "recorded_as C (evs @ [as_read c]) ev p = Inr (Some (as_read c))"
        using fresh c(1) by (intro recorded_as_exact) (simp_all add: fresh_event_def written_def)
      moreover have "prepared E ev body s' = (b, p)"
        using p prepared_cong [of s' s] append_redactor [OF run] by simp
      moreover have "read_verified E C s' = Inr (evs @ [as_read c])" using c(2) by (simp add: store_ok_def)
      ultimately have "append E C ev body s' = recover_and_return E (as_read c) s'"
        using append_recorded(1) by blast
      then show ?thesis
        using recover_and_return_ok [OF c(2), of "as_read c"] by (auto simp: as_read_def)
    qed
  qed
qed

lemma new_reservation_next:
  assumes "highest_sequence evs rows + 1 > last_sequence evs" "validate_payload k p (highest_sequence evs rows + 1) = Inr ()"
    "pget p ''blob_digest'' = JStr d" "pget p ''blob_bytes'' = JInt n"
  shows "new_reservation E k run ev p evs rows None = Inr
     \<lparr>rv_sequence = highest_sequence evs rows + 1, rv_previous_digest = last_digest evs, rv_run_id = run,
      rv_event_type = ev_type ev, rv_event_fingerprint = event_fingerprint E p, rv_blob_digest = d,
      rv_blob_bytes = n, rv_reservation_id = reservation_name run (highest_sequence evs rows + 1) (ev_type ev),
      rv_status = RESERVED\<rparr>"
proof -
  have "map_of p ''blob_digest'' = Some (JStr d)" "map_of p ''blob_bytes'' = Some (JInt n)"
    using assms(3,4) by (auto simp: pget_def split: option.splits)
  moreover have "highest_sequence evs rows + 1 \<notin> rv_sequence ` {x \<in> set rows. rv_status x = RESERVED}"
    using highest_sequence_ge [of _ rows evs] by fastforce
  ultimately show ?thesis
    using assms(1,2) by (simp add: new_reservation_def Let_def pidx_def py_str_def guard_res_def)
qed

lemma highest_sequence_ge_last: "last_sequence evs \<le> highest_sequence evs rows \<or> evs = []"
  by (cases "evs = []") (auto simp: last_sequence_def highest_sequence_def Let_def intro: Max_ge)

lemma highest_sequence_Nil: "\<forall>r \<in> set rows. 1 \<le> rv_sequence r \<Longrightarrow> 0 \<le> highest_sequence [] rows"
proof (cases rows)
  case (Cons r rest)
  moreover assume "\<forall>r \<in> set rows. 1 \<le> rv_sequence r"
  ultimately show ?thesis using highest_sequence_ge [of r rows "[]"] by simp
qed (simp add: highest_sequence_def)

lemma highest_at_least_last:
  assumes "store_ok E C s evs" "read_reservations E s = Inr rows"
  shows "last_sequence evs \<le> highest_sequence evs rows"
  using highest_sequence_ge_last [of evs rows] highest_sequence_Nil [of rows] read_reservations_rows [OF assms(2)]
  by (auto simp: last_sequence_def)

text \<open>The reservation an unhooked append takes when none matches.\<close>

lemma append_takes_next:
  assumes ok: "store_ok E C s evs" "appendable E C ev body evs s" "st_hook s = (\<lambda>_. None)"
    and rows: "read_reservations E s = Inr rows" and p: "prepared E ev body s = (b, p)"
    and fresh: "fresh_event C ev p evs" "find_reservation_for_payload E ev p s = Inr None"
  obtains r where "append E C ev body s = commit_locked E r ev p b evs (record_reservation r None s)"
    "rv_sequence r = highest_sequence evs rows + 1" "rv_status r = RESERVED" "rv_run_id r = st_run_id s"
    "rv_event_type r = ev_type ev" "rv_event_fingerprint r = event_fingerprint E p"
    "rv_blob_digest r = sha_bytes E b" "rv_blob_bytes r = int (length b)"
    "reserve_locked E C ev p evs None s = (Inr r, record_reservation r None s)"
proof -
  have read: "read_verified E C s = Inr evs" using ok(1) by (simp add: store_ok_def)
  obtain k where k: "C (ev_type ev) = Some k" "\<And>n. validate_payload k p n = Inr ()"
    "pget p ''blob_digest'' = JStr (sha_bytes E b)" "pget p ''blob_bytes'' = JInt (int (length b))"
    using ok(2) p by (auto simp: appendable_def)
  have "highest_sequence evs rows + 1 > last_sequence evs"
    using highest_at_least_last [OF ok(1) rows] by simp
  note new = new_reservation_next [OF this k(2-4), of E "st_run_id s" ev]
  then have res: "\<exists>r. new_reservation E k (st_run_id s) ev p evs rows None = Inr r
      \<and> rv_sequence r = highest_sequence evs rows + 1 \<and> rv_status r = RESERVED \<and> rv_run_id r = st_run_id s
      \<and> rv_event_type r = ev_type ev \<and> rv_event_fingerprint r = event_fingerprint E p
      \<and> rv_blob_digest r = sha_bytes E b \<and> rv_blob_bytes r = int (length b)"
    by simp
  then obtain r where r: "new_reservation E k (st_run_id s) ev p evs rows None = Inr r"
      "rv_sequence r = highest_sequence evs rows + 1" "rv_status r = RESERVED" "rv_run_id r = st_run_id s"
      "rv_event_type r = ev_type ev" "rv_event_fingerprint r = event_fingerprint E p"
      "rv_blob_digest r = sha_bytes E b" "rv_blob_bytes r = int (length b)" by blast
  have rl: "reserve_locked E C ev p evs None s = (Inr r, record_reservation r None s)"
    using r(1) k(1) rows ok(3) by (simp add: reserve_locked_def Let_def)
  show thesis
    using append_reserves [OF read p fresh rl] r(2-8) rl that by blast
qed

lemma check_commit_next:
  assumes "rv_status r = RESERVED" "rv_run_id r = st_run_id s" "rv_event_type r = ev_type ev"
    "rv_event_fingerprint r = event_fingerprint E p" "pget p ''blob_digest'' = JStr (rv_blob_digest r)"
    "pget p ''blob_bytes'' = JInt (rv_blob_bytes r)"
  shows "check_commit E r ev p evs s =
     (if rv_sequence r = last_sequence evs + 1 then Inr () else Inl (SequenceGapError (rv_sequence r)))"
proof -
  have "map_of p ''blob_digest'' = Some (JStr (rv_blob_digest r))" "map_of p ''blob_bytes'' = Some (JInt (rv_blob_bytes r))"
    using assms(5,6) by (auto simp: pget_def split: option.splits)
  then show ?thesis
    using assms by (simp add: check_commit_def Let_def pidx_def py_eq_int_def guard_res_def)
qed

lemma append_takes_next_result:
  assumes ok: "store_ok E C s evs" "appendable E C ev body evs s" "st_hook s = (\<lambda>_. None)"
    and rows: "read_reservations E s = Inr rows" and p: "prepared E ev body s = (b, p)"
    and fresh: "fresh_event C ev p evs" "find_reservation_for_payload E ev p s = Inr None"
    and sealed: "\<And>x. map_of (st_sealed s) (sha_bytes E b) = Some x \<Longrightarrow> x = b"
  shows "highest_sequence evs rows = last_sequence evs \<Longrightarrow> \<exists>c s'. append E C ev body s = (Inr c, s')"
    and "highest_sequence evs rows \<noteq> last_sequence evs \<Longrightarrow>
      \<exists>s'. append E C ev body s = (Inl (SequenceGapError (highest_sequence evs rows + 1)), s')
         \<and> st_events s' = st_events s \<and> store_ok E C s' evs"
proof -
  obtain r where r: "append E C ev body s = commit_locked E r ev p b evs (record_reservation r None s)"
    "rv_sequence r = highest_sequence evs rows + 1" "rv_status r = RESERVED" "rv_run_id r = st_run_id s"
    "rv_event_type r = ev_type ev" "rv_event_fingerprint r = event_fingerprint E p"
    "rv_blob_digest r = sha_bytes E b" "rv_blob_bytes r = int (length b)"
    "reserve_locked E C ev p evs None s = (Inr r, record_reservation r None s)"
    using append_takes_next [OF ok rows p fresh] by blast
  let ?s = "record_reservation r None s"
  have f: "pget p ''blob_digest'' = JStr (rv_blob_digest r)" "pget p ''blob_bytes'' = JInt (rv_blob_bytes r)"
    using ok(2) p r(7,8) by (simp_all add: appendable_def)
  have "rv_run_id r = st_run_id ?s" using r(4) by simp
  note chk = check_commit_next [OF r(3) this r(5,6) f, of evs]
  show "\<exists>c s'. append E C ev body s = (Inr c, s')" if "highest_sequence evs rows = last_sequence evs"
  proof -
    obtain s1 where s1: "seal_blob E (sha_bytes E b) b ?s = (Inr (), s1)"
      using sealed by (cases "map_of (st_sealed s) (sha_bytes E b)") (auto simp: seal_blob_def guard_res_def)
    have "st_hook s1 = (\<lambda>_. None)" using seal_blob_fields(4) [OF s1] ok(3) by simp
    then show ?thesis
      using r(1,2,7) chk that s1 by (simp add: commit_locked_unfold Let_def)
  qed
  show "\<exists>s'. append E C ev body s = (Inl (SequenceGapError (highest_sequence evs rows + 1)), s')
      \<and> st_events s' = st_events s \<and> store_ok E C s' evs" if "highest_sequence evs rows \<noteq> last_sequence evs"
    using r(1,2) chk that reserve_locked_ok(1) [OF ok(1) r(9)] by (simp add: commit_locked_unfold)
qed

section \<open>A concrete store\<close>

primrec demo_render :: "json \<Rightarrow> string" where
  "demo_render JNull = ''n''"
| "demo_render (JBool b) = (if b then ''t'' else ''f'')"
| "demo_render (JInt n) = show_int n"
| "demo_render (JFloat r) = ''r''"
| "demo_render (JStr t) = t"
| "demo_render (JArr xs) = concat (map demo_render xs)"
| "demo_render (JObj kvs) = concat (map (case_prod (@)) (map (map_prod id demo_render) kvs))"

definition demo_env :: env where
  "demo_env =
     \<lparr>sha_json = demo_render, sha_bytes = (\<lambda>b. if b = [] then EMPTY_BLOB_DIGEST else ''other''),
      py_repr = (\<lambda>_. ''?'')\<rparr>"

definition demo_store :: store where
  "demo_store = empty_store ''run-1'' id (\<lambda>_. None)"

definition demo_open :: CanonicalEvent where
  "demo_open = lifecycle_event ''run-1:open'' RunOpened ''t0''"

definition demo_close :: CanonicalEvent where
  "demo_close = lifecycle_event ''run-1:close'' (RunClosed NORMAL ''done'') ''t2''"

definition demo_boot :: CanonicalEvent where
  "demo_boot = lifecycle_event ''run-1:boot'' (BootOpened ''boot-1'') ''t1''"

lemma appendableI:
  assumes "prepared E ev body s = (b, p)" "pget p ''blob_digest'' = JStr (sha_bytes E b)"
    "pget p ''blob_bytes'' = JInt (int (length b))" "ev_type ev \<noteq> ''storage-governor.recorded''"
    "C (ev_type ev) = Some k" "\<And>n. validate_payload k p n = Inr ()"
    "map_of (st_sealed s) (sha_bytes E b) = None \<Longrightarrow> sha_bytes E b \<notin> ce_blob_digest ` set evs"
  shows "appendable E C ev body evs s"
  using assms by (auto simp: appendable_def)

lemma demo_store_ok: "store_ok demo_env event_contract demo_store []"
  unfolding demo_store_def by (rule empty_store_ok)

lemma demo_appendable: "appendable demo_env event_contract demo_open [] [] demo_store"
proof (rule appendableI)
  show "prepared demo_env demo_open [] demo_store = ([], snd (prepared demo_env demo_open [] demo_store))"
    by code_simp
  show "pget (snd (prepared demo_env demo_open [] demo_store)) ''blob_digest'' = JStr (sha_bytes demo_env [])"
    "pget (snd (prepared demo_env demo_open [] demo_store)) ''blob_bytes'' = JInt (int (length []))"
    by code_simp+
  show "ev_type demo_open \<noteq> ''storage-governor.recorded''" by code_simp
  show "event_contract (ev_type demo_open) = Some lifecycle_contract"
    by (simp add: demo_open_def lifecycle_event_def event_contract_def)
  show "validate_payload lifecycle_contract (snd (prepared demo_env demo_open [] demo_store)) n = Inr ()" for n
    by code_simp
qed simp

abbreviation demo_first :: "CommittedEvent res \<times> store" where
  "demo_first \<equiv> append demo_env event_contract demo_open [] demo_store"

lemma demo_first_Inr: "\<exists>c. fst demo_first = Inr c"
proof -
  have "(case fst demo_first of Inl _ \<Rightarrow> False | Inr _ \<Rightarrow> True)" by code_simp
  then show ?thesis by (auto split: sum.splits)
qed

section \<open>Properties\<close>



text \<open>C2. Crash consistency.  If an append would succeed, and instead the process dies at any of the
  durable steps (after the reservation, before the append or after it), then repeating the same append
  succeeds with the same event, and the canonical stream is the one that the undisturbed append would
  have left: the event is committed exactly once.\<close>

theorem append_crash_retry:
  assumes "reads_by_key C" "store_ok E C s evs" "appendable E C ev body evs s"
    and "append E C ev body (unhooked s) = (Inr c, s1)"
    and "append E C ev body (hooked h s) = (Inl e, s2)"
  shows "\<exists>c' s3. append E C ev body (unhooked s2) = (Inr c', s3) \<and> as_read c' = as_read c
           \<and> st_events s3 = st_events s1"
  using assms by (rule append_retry)

definition demo_crash :: "string \<Rightarrow> exn option" where
  "demo_crash phase = (if phase = ''after_append'' then Some HookRaised else None)"

theorem append_crash_retry_witness:
  "\<exists>c s1 s2 c' s3. append demo_env event_contract demo_open [] (unhooked demo_store) = (Inr c, s1)
     \<and> append demo_env event_contract demo_open [] (hooked demo_crash demo_store) = (Inl HookRaised, s2)
     \<and> append demo_env event_contract demo_open [] (unhooked s2) = (Inr c', s3)
     \<and> as_read c' = as_read c \<and> st_events s3 = st_events s1"
proof -
  let ?crashed = "append demo_env event_contract demo_open [] (hooked demo_crash demo_store)"
  obtain c where c: "fst demo_first = Inr c" using demo_first_Inr by blast
  have "unhooked demo_store = demo_store" by (simp add: hooked_def demo_store_def empty_store_def)
  then have clean: "append demo_env event_contract demo_open [] (unhooked demo_store) = (Inr c, snd demo_first)"
    using c by (metis prod.collapse)
  have "(case fst ?crashed of Inl HookRaised \<Rightarrow> True | _ \<Rightarrow> False)" by code_simp
  then have crash: "?crashed = (Inl HookRaised, snd ?crashed)"
    by (cases ?crashed) (auto split: sum.splits exn.splits)
  show ?thesis
    using append_crash_retry [OF event_contract_keyed demo_store_ok demo_appendable clean crash] clean crash
    by blast
qed

text \<open>C3. Appending is idempotent: once an append has returned an event, the same append returns the
  same event again and writes nothing to the canonical stream.\<close>

theorem append_idempotent:
  assumes "reads_by_key C" "store_ok E C s evs" "appendable E C ev body evs s"
    and "append E C ev body s = (Inr c, s')"
  shows "\<exists>c' s''. append E C ev body s' = (Inr c', s'') \<and> as_read c' = as_read c \<and> st_events s'' = st_events s'"
  using assms by (rule append_idempotent_ok)

theorem append_idempotent_witness:
  "\<exists>c s' c' s''. append demo_env event_contract demo_open [] demo_store = (Inr c, s')
     \<and> append demo_env event_contract demo_open [] s' = (Inr c', s'') \<and> as_read c' = as_read c
     \<and> st_events s'' = st_events s'"
proof -
  obtain c where c: "fst demo_first = Inr c" using demo_first_Inr by blast
  then have run: "demo_first = (Inr c, snd demo_first)" by (metis prod.collapse)
  then show ?thesis
    using append_idempotent [OF event_contract_keyed demo_store_ok demo_appendable run] by blast
qed

text \<open>C4. Progress: with no hook, no reservation beyond the committed sequence and none for the payload,
  an event that nothing recorded answers for is committed, provided a sealed blob of that name holds the
  same body.\<close>

theorem append_progress:
  assumes "store_ok E C s evs" "appendable E C ev body evs s" "st_hook s = (\<lambda>_. None)"
    and "read_reservations E s = Inr rows" "prepared E ev body s = (b, p)"
    and "fresh_event C ev p evs" "find_reservation_for_payload E ev p s = Inr None"
    and "\<And>x. map_of (st_sealed s) (sha_bytes E b) = Some x \<Longrightarrow> x = b"
    and "highest_sequence evs rows = last_sequence evs"
  shows "\<exists>c s'. append E C ev body s = (Inr c, s')"
  using append_takes_next_result(1) [OF assms(1-8)] assms(9) by blast

lemma demo_prepared:
  "prepared demo_env demo_open [] demo_store = ([], snd (prepared demo_env demo_open [] demo_store))"
  by code_simp

theorem append_progress_witness: "\<exists>c s'. append demo_env event_contract demo_open [] demo_store = (Inr c, s')"
proof (rule append_progress [OF demo_store_ok demo_appendable _ _ demo_prepared])
  show "st_hook demo_store = (\<lambda>_. None)" by (simp add: demo_store_def empty_store_def)
  show "read_reservations demo_env demo_store = Inr []" by code_simp
  show "fresh_event event_contract demo_open (snd (prepared demo_env demo_open [] demo_store)) []"
    by (simp add: fresh_event_def find_exact_identity_def refuse_after_terminal_def guard_res_def)
  show "find_reservation_for_payload demo_env demo_open (snd (prepared demo_env demo_open [] demo_store)) demo_store = Inr None"
    by code_simp
  show "map_of (st_sealed demo_store) (sha_bytes demo_env []) = Some x \<Longrightarrow> x = []" for x
    by (simp add: demo_store_def empty_store_def)
  show "highest_sequence [] [] = last_sequence []"
    by (simp add: highest_sequence_def last_sequence_def)
qed

text \<open>C5. An abandoned reservation blocks the Run.  When some reservation lies beyond the committed
  sequence (a crash after the reservation whose event is never proposed again with the same payload),
  every append of an event that is not already recorded or reserved raises \<open>SequenceGapError\<close>, writes no
  event and leaves the store in the same condition, so the next such append fails too.\<close>

theorem abandoned_reservation_blocks:
  assumes "store_ok E C s evs" "appendable E C ev body evs s" "st_hook s = (\<lambda>_. None)"
    and "read_reservations E s = Inr rows" "prepared E ev body s = (b, p)"
    and "fresh_event C ev p evs" "find_reservation_for_payload E ev p s = Inr None"
    and "\<And>x. map_of (st_sealed s) (sha_bytes E b) = Some x \<Longrightarrow> x = b"
    and "highest_sequence evs rows \<noteq> last_sequence evs"
  shows "\<exists>s'. append E C ev body s = (Inl (SequenceGapError (highest_sequence evs rows + 1)), s')
           \<and> st_events s' = st_events s \<and> store_ok E C s' evs"
  using append_takes_next_result(2) [OF assms(1-8)] assms(9) by blast

text \<open>The store that a crash after the reservation of \<open>demo_open\<close> leaves behind.\<close>

definition demo_abandoned :: store where
  "demo_abandoned =
     unhooked (snd (append demo_env event_contract demo_open []
       (hooked (\<lambda>phase. if phase = ''after_reserve'' then Some HookRaised else None) demo_store)))"

lemma demo_abandoned_ok: "store_ok demo_env event_contract demo_abandoned []"
proof -
  let ?h = "\<lambda>phase. if phase = ''after_reserve'' then Some HookRaised else None :: exn option"
  let ?run = "append demo_env event_contract demo_open [] (hooked ?h demo_store)"
  have ok: "store_ok demo_env event_contract (hooked ?h demo_store) []" using demo_store_ok by simp
  have ap: "appendable demo_env event_contract demo_open [] [] (hooked ?h demo_store)"
    using demo_appendable by (simp add: appendable_def)
  have "(case fst ?run of Inl _ \<Rightarrow> True | _ \<Rightarrow> False)" by code_simp
  then obtain e where run: "?run = (Inl e, snd ?run)" by (cases ?run) (auto split: sum.splits)
  have "(case read_verified demo_env event_contract demo_abandoned of Inr [] \<Rightarrow> True | _ \<Rightarrow> False)" by code_simp
  then have "read_verified demo_env event_contract demo_abandoned = Inr []"
    by (auto split: sum.splits list.splits)
  then show ?thesis
    using append_ok [OF event_contract_keyed ok ap run]
    by (auto simp: demo_abandoned_def store_ok_def)
qed

lemma demo_boot_appendable: "appendable demo_env event_contract demo_boot [] [] demo_abandoned"
proof (rule appendableI)
  show "prepared demo_env demo_boot [] demo_abandoned = ([], snd (prepared demo_env demo_boot [] demo_abandoned))"
    by code_simp
  show "pget (snd (prepared demo_env demo_boot [] demo_abandoned)) ''blob_digest'' = JStr (sha_bytes demo_env [])"
    "pget (snd (prepared demo_env demo_boot [] demo_abandoned)) ''blob_bytes'' = JInt (int (length []))"
    by code_simp+
  show "ev_type demo_boot \<noteq> ''storage-governor.recorded''" by code_simp
  show "event_contract (ev_type demo_boot) = Some lifecycle_contract"
    by (simp add: demo_boot_def lifecycle_event_def event_contract_def)
  show "validate_payload lifecycle_contract (snd (prepared demo_env demo_boot [] demo_abandoned)) n = Inr ()" for n
    by code_simp
qed simp

theorem abandoned_reservation_blocks_witness:
  "\<exists>s'. append demo_env event_contract demo_boot [] demo_abandoned = (Inl (SequenceGapError 2), s')
     \<and> st_events s' = st_events demo_abandoned \<and> store_ok demo_env event_contract s' []"
proof -
  let ?p = "snd (prepared demo_env demo_boot [] demo_abandoned)"
  have "(case read_reservations demo_env demo_abandoned of Inr [r] \<Rightarrow> rv_sequence r = 1 | _ \<Rightarrow> False)" by code_simp
  then obtain r where r: "read_reservations demo_env demo_abandoned = Inr [r]" "rv_sequence r = 1"
    by (auto split: sum.splits list.splits)
  have hs: "highest_sequence [] [r] = 1" using r(2) by (simp add: highest_sequence_def)
  have prep: "prepared demo_env demo_boot [] demo_abandoned = ([], ?p)" by code_simp
  have hook: "st_hook demo_abandoned = (\<lambda>_. None)" by (simp add: demo_abandoned_def)
  have fresh: "fresh_event event_contract demo_boot ?p []"
    by (simp add: fresh_event_def find_exact_identity_def refuse_after_terminal_def guard_res_def)
  have none: "find_reservation_for_payload demo_env demo_boot ?p demo_abandoned = Inr None" by code_simp
  have sealed: "x = []" if "map_of (st_sealed demo_abandoned) (sha_bytes demo_env []) = Some x" for x
  proof -
    have "map_of (st_sealed demo_abandoned) (sha_bytes demo_env []) = None" by code_simp
    with that show ?thesis by simp
  qed
  have "highest_sequence [] [r] \<noteq> last_sequence []" using hs by (simp add: last_sequence_def)
  then show ?thesis
    using abandoned_reservation_blocks [OF demo_abandoned_ok demo_boot_appendable hook r(1) prep fresh none sealed] hs
    by simp
qed

end
