(* ===== verification/Intake_Types.thy ===== *)
theory Intake_Types
  imports Prelude
begin

text \<open>
  The identities and snapshots that Intake hands to the policies: \<open>TypedId\<close>, \<open>PresentValue\<close>,
  \<open>ValueFact\<close>, \<open>ChallengeSnapshot\<close>, \<open>PriorFence\<close> and \<open>IntakeSnapshot\<close> of
  \<open>solver/intake_qualification.py\<close> with the fields the modelled policies read.  \<open>TypedId.parse\<close>
  makes two kinds of identity only, so an identity is one of two constructors and is its own
  \<open>_key\<close>.  A datetime is the number of microseconds since the epoch.
\<close>

datatype TypedId = TypedInt int | TypedStr string

fun typed_id_parse :: "json \<Rightarrow> TypedId res" where
  "typed_id_parse (JBool _) = Inl ValueError"
| "typed_id_parse (JInt n) = (if n \<ge> 0 then Inr (TypedInt n) else Inl ValueError)"
| "typed_id_parse (JStr s) = (if s \<noteq> [] then Inr (TypedStr s) else Inl ValueError)"
| "typed_id_parse _ = Inl ValueError"

fun typed_id_kind :: "TypedId \<Rightarrow> string" where
  "typed_id_kind (TypedInt _) = ''integer''"
| "typed_id_kind (TypedStr _) = ''string''"

text \<open>\<open>str(self.value)\<close>\<close>

fun typed_id_text :: "TypedId \<Rightarrow> string" where
  "typed_id_text (TypedInt n) = show_int n"
| "typed_id_text (TypedStr s) = s"

definition typed_id_document :: "TypedId \<Rightarrow> json" where
  "typed_id_document i = JObj [(''type'', JStr (typed_id_kind i)), (''value'', JStr (typed_id_text i))]"

text \<open>\<open>sort_key\<close>: integers before strings, each by value; the order of the type.\<close>

fun typed_id_rank :: "TypedId \<Rightarrow> nat \<times> int \<times> string" where
  "typed_id_rank (TypedInt n) = (0, n, [])"
| "typed_id_rank (TypedStr s) = (1, 0, s)"

lemma typed_id_rank_inj: "typed_id_rank a = typed_id_rank b \<Longrightarrow> a = b"
  by (cases a; cases b) auto

text \<open>Lexicographic comparison of the rank, written out so that the order of products stays the
  library's choice elsewhere.\<close>

definition rank_le :: "nat \<times> int \<times> string \<Rightarrow> nat \<times> int \<times> string \<Rightarrow> bool" where
  "rank_le a b =
     (case (a, b) of ((k, n, s), (k', n', s')) \<Rightarrow> k < k' \<or> k = k' \<and> (n < n' \<or> n = n' \<and> s \<le> s'))"

instantiation TypedId :: linorder
begin

definition less_eq_TypedId :: "TypedId \<Rightarrow> TypedId \<Rightarrow> bool" where
  "a \<le> b \<longleftrightarrow> rank_le (typed_id_rank a) (typed_id_rank b)"

definition less_TypedId :: "TypedId \<Rightarrow> TypedId \<Rightarrow> bool" where
  "(a :: TypedId) < b \<longleftrightarrow> a \<le> b \<and> \<not> b \<le> a"

instance
proof
  fix a b c :: TypedId
  show "a < b \<longleftrightarrow> a \<le> b \<and> \<not> b \<le> a" by (simp add: less_TypedId_def)
  show "a \<le> a" by (cases a) (simp_all add: less_eq_TypedId_def rank_le_def)
  show "a \<le> b \<Longrightarrow> b \<le> c \<Longrightarrow> a \<le> c"
    by (cases a; cases b; cases c) (auto simp: less_eq_TypedId_def rank_le_def)
  show "a \<le> b \<Longrightarrow> b \<le> a \<Longrightarrow> a = b"
    by (cases a; cases b) (auto simp: less_eq_TypedId_def rank_le_def)
  show "a \<le> b \<or> b \<le> a"
    by (cases a; cases b) (auto simp: less_eq_TypedId_def rank_le_def)
qed

end

record PresentValue =
  pv_state :: string
  pv_value :: json

definition present_from_field :: "payload \<Rightarrow> string \<Rightarrow> PresentValue" where
  "present_from_field source name =
     (case map_of source name of
        None \<Rightarrow> \<lparr>pv_state = ''missing'', pv_value = JNull\<rparr>
      | Some JNull \<Rightarrow> \<lparr>pv_state = ''null'', pv_value = JNull\<rparr>
      | Some v \<Rightarrow> \<lparr>pv_state = ''value'', pv_value = v\<rparr>)"

definition present_document :: "PresentValue \<Rightarrow> payload" where
  "present_document v =
     (''state'', JStr (pv_state v)) # (if pv_state v = ''value'' then [(''value'', pv_value v)] else [])"

record ValueFact =
  vf_value :: json
  vf_outcome :: string

record ChallengeSnapshot =
  cs_challenge_id :: TypedId
  cs_name :: string
  cs_category :: string
  cs_challenge_type :: string
  cs_statement :: string
  cs_value :: ValueFact
  cs_solves :: ValueFact
  cs_solved :: ValueFact
  cs_position :: PresentValue
  cs_shared :: PresentValue
  cs_revision_digest :: string

record PriorFence =
  pf_profile_digest :: string
  pf_event_id :: string
  pf_event_digest :: string
  pf_snapshot_digest :: string

text \<open>\<open>is_digest\<close> is the value of the \<open>digest\<close> property; a scoreboard row is its JSON object.\<close>

record IntakeSnapshot =
  is_profile_digest :: string
  is_observed_at :: int
  is_challenges :: "ChallengeSnapshot list"
  is_scoreboard :: "payload list"
  is_digest :: string

text \<open>A settled non-negative count: answered, an int and not a bool.\<close>

definition settled_count :: "ValueFact \<Rightarrow> int option" where
  "settled_count f =
     (if vf_outcome f \<noteq> ''answered'' then None
      else case strict_int (vf_value f) of None \<Rightarrow> None | Some n \<Rightarrow> if n < 0 then None else Some n)"

lemma settled_count_nonneg: "settled_count f = Some n \<Longrightarrow> 0 \<le> n"
  by (auto simp: settled_count_def split: if_splits option.splits)

section \<open>Stated difficulty\<close>

text \<open>The pattern \<open>STATES\<close> of \<open>solver/triage.py\<close>, which \<open>order_policy._stated_tier\<close> repeats:
  \<open>difficulty\W{0,4}[:\-]\W{0,4}\s*([A-Za-z][A-Za-z \-]{0,24})\<close>, ignoring case, on ASCII text (the
  two long dashes that the pattern also accepts as separators are outside it).\<close>

definition char_code :: "char \<Rightarrow> nat" where
  "char_code c = of_char c"

definition is_upper :: "char \<Rightarrow> bool" where
  "is_upper c = (65 \<le> char_code c \<and> char_code c \<le> 90)"

definition lower_char :: "char \<Rightarrow> char" where
  "lower_char c = (if is_upper c then char_of (char_code c + 32) else c)"

definition is_letter :: "char \<Rightarrow> bool" where
  "is_letter c = (is_upper c \<or> 97 \<le> char_code c \<and> char_code c \<le> 122)"

definition is_word_char :: "char \<Rightarrow> bool" where
  "is_word_char c = (is_letter c \<or> is_digit c \<or> c = CHR ''_'')"

definition is_space :: "char \<Rightarrow> bool" where
  "is_space c = (char_code c \<in> {9, 10, 11, 12, 13, 28, 29, 30, 31, 32})"

definition is_separator :: "char \<Rightarrow> bool" where
  "is_separator c = (c = CHR '':'' \<or> c = CHR ''-'')"

definition captured_char :: "char \<Rightarrow> bool" where
  "captured_char c = (is_letter c \<or> c = CHR '' '' \<or> c = CHR ''-'')"

definition gap_ok :: "string \<Rightarrow> bool" where
  "gap_ok gap =
     list_ex (\<lambda>i. i \<le> 4 \<and> is_separator (gap ! i) \<and> list_all is_space (drop (i + 5) gap)) [0..<length gap]"

definition states_match :: "string \<Rightarrow> string option" where
  "states_match s =
     (let rest = drop 10 s;
          gap = takeWhile (\<lambda>c. \<not> is_word_char c) rest;
          after = dropWhile (\<lambda>c. \<not> is_word_char c) rest
      in if map lower_char (take 10 s) = ''difficulty'' \<and> gap_ok gap \<and> after \<noteq> [] \<and> is_letter (hd after)
         then Some (hd after # take 24 (takeWhile captured_char (tl after)))
         else None)"

fun states_search :: "string \<Rightarrow> string option" where
  "states_search [] = None"
| "states_search (c # s) = (case states_match (c # s) of Some w \<Rightarrow> Some w | None \<Rightarrow> states_search s)"

text \<open>\<open>" ".join(text.split())\<close>\<close>

function words :: "string \<Rightarrow> string list" where
  "words [] = []"
| "words (c # s) =
     (if is_space c then words s
      else (c # takeWhile (\<lambda>d. \<not> is_space d) s) # words (dropWhile (\<lambda>d. \<not> is_space d) s))"
  by pat_completeness auto
termination
  by (relation "measure length") (auto simp: le_imp_less_Suc length_dropWhile_le)

fun join_space :: "string list \<Rightarrow> string" where
  "join_space [] = []"
| "join_space [w] = w"
| "join_space (w # ws) = w @ CHR '' '' # join_space ws"

definition STATED :: "(string \<times> int) list" where
  "STATED =
     [(''trivial'', 1), (''beginner'', 1), (''very easy'', 1), (''easy'', 1), (''baby'', 1),
      (''medium'', 2), (''moderate'', 2), (''intermediate'', 2), (''normal'', 2),
      (''hard'', 3), (''difficult'', 3), (''advanced'', 3),
      (''very hard'', 4), (''insane'', 4), (''expert'', 4), (''extreme'', 4), (''impossible'', 4)]"

definition FLOOR :: int where "FLOOR = 2"

definition TIERS :: int where "TIERS = 4"

lemma STATED_range: "map_of STATED w = Some t \<Longrightarrow> 1 \<le> t \<and> t \<le> 4"
  by (drule map_of_SomeD) (auto simp: STATED_def)

text \<open>The pattern read declaratively: some way to split the text into the parts of the pattern.\<close>

definition states_spec :: "string \<Rightarrow> string \<Rightarrow> bool" where
  "states_spec s w =
     (\<exists>d a c b ws l rest.
        s = d @ a @ c # b @ ws @ l # rest \<and> map lower_char d = ''difficulty''
        \<and> length a \<le> 4 \<and> list_all (\<lambda>x. \<not> is_word_char x) a \<and> is_separator c
        \<and> length b \<le> 4 \<and> list_all (\<lambda>x. \<not> is_word_char x) b \<and> list_all is_space ws \<and> is_letter l
        \<and> w = l # take 24 (takeWhile captured_char rest))"

lemma separator_not_word: "is_separator c \<Longrightarrow> \<not> is_word_char c"
  by (auto simp: is_separator_def is_word_char_def is_letter_def is_upper_def is_digit_def char_code_def)

lemma space_not_word: "is_space c \<Longrightarrow> \<not> is_word_char c"
  by (auto simp: is_space_def is_word_char_def is_letter_def is_upper_def is_digit_def char_code_def)

lemma letter_word: "is_letter c \<Longrightarrow> is_word_char c"
  by (simp add: is_word_char_def)

lemma states_match_complete:
  assumes "states_spec s w"
  shows "states_match s = Some w"
proof -
  obtain d a c b ws l rest where s: "s = d @ a @ c # b @ ws @ l # rest" "map lower_char d = ''difficulty''"
    "length a \<le> 4" "list_all (\<lambda>x. \<not> is_word_char x) a" "is_separator c" "length b \<le> 4"
    "list_all (\<lambda>x. \<not> is_word_char x) b" "list_all is_space ws" "is_letter l"
    "w = l # take 24 (takeWhile captured_char rest)"
    using assms unfolding states_spec_def by (elim exE conjE) (rule that)
  have len: "length d = 10" using arg_cong [OF s(2), of length] by simp
  let ?gap = "a @ c # b @ ws"
  have nw: "\<not> is_word_char x" if "x \<in> set ?gap" for x
    using that s(4,5,7,8) separator_not_word [of x] space_not_word [of x] unfolding list_all_iff by auto
  have lw: "is_word_char l" using s(9) letter_word by simp
  have "takeWhile (\<lambda>x. \<not> is_word_char x) (?gap @ l # rest) = ?gap @ takeWhile (\<lambda>x. \<not> is_word_char x) (l # rest)"
    using nw by (rule takeWhile_append2)
  then have tw: "takeWhile (\<lambda>x. \<not> is_word_char x) (?gap @ l # rest) = ?gap"
    using lw by (simp only: takeWhile.simps if_True if_False not_not append_Nil2 simp_thms)
  have "dropWhile (\<lambda>x. \<not> is_word_char x) (?gap @ l # rest) = dropWhile (\<lambda>x. \<not> is_word_char x) (l # rest)"
    using nw by (rule dropWhile_append2)
  then have dw: "dropWhile (\<lambda>x. \<not> is_word_char x) (?gap @ l # rest) = l # rest"
    using lw by (simp only: dropWhile.simps if_True if_False not_not simp_thms)
  have ok: "gap_ok ?gap"
  proof -
    have c: "?gap ! length a = c" by (simp add: nth_append)
    have "drop (length a + 5) ?gap = drop 4 (b @ ws)" by simp
    moreover have "set (drop 4 (b @ ws)) \<subseteq> set ws" using s(6) by (auto dest: in_set_dropD)
    ultimately have "list_all is_space (drop (length a + 5) ?gap)"
      using s(8) unfolding list_all_iff by auto
    then show ?thesis
      unfolding gap_ok_def list_ex_iff using s(3,5) c by (intro bexI [of _ "length a"]) simp_all
  qed
  have rest: "drop 10 s = ?gap @ l # rest" and pre: "take 10 s = d"
    using s(1) len by simp_all
  show ?thesis
    unfolding states_match_def Let_def rest pre tw dw using s(2,9,10) ok by simp
qed

lemma if_Some_eq: "(if P then Some x else None) = Some w \<longleftrightarrow> P \<and> w = x"
  by auto

lemma replace_parts:
  "s = t @ g @ r \<Longrightarrow> g = u @ x # v \<Longrightarrow> v = v' \<Longrightarrow> r = r' \<Longrightarrow> s = t @ (u @ x # v') @ r'"
  by simp

lemma states_match_sound:
  assumes "states_match s = Some w"
  shows "states_spec s w"
proof -
  let ?rest = "drop 10 s"
  let ?gap = "takeWhile (\<lambda>c. \<not> is_word_char c) ?rest"
  let ?after = "dropWhile (\<lambda>c. \<not> is_word_char c) ?rest"
  have m: "map lower_char (take 10 s) = ''difficulty''" "gap_ok ?gap" "?after \<noteq> []" "is_letter (hd ?after)"
    "w = hd ?after # take 24 (takeWhile captured_char (tl ?after))"
    using assms unfolding states_match_def Let_def if_Some_eq by blast+
  obtain i where i: "i < length ?gap" "i \<le> 4" "is_separator (?gap ! i)" "list_all is_space (drop (i + 5) ?gap)"
    using m(2) by (auto simp: gap_ok_def list_ex_iff)
  have nw: "\<forall>x \<in> set ?gap. \<not> is_word_char x" by (auto dest: set_takeWhileD)
  define g where "g = ?gap"
  have g1: "g = take i g @ g ! i # drop (Suc i) g"
    using i(1) unfolding g_def by (rule id_take_nth_drop)
  have "drop (Suc i) g = take 4 (drop (Suc i) g) @ drop 4 (drop (Suc i) g)"
    by (rule append_take_drop_id [symmetric])
  then have g2: "drop (Suc i) g = take 4 (drop (Suc i) g) @ drop (i + 5) g"
    by (simp add: add.commute)
  have "s = take 10 s @ g @ ?after" by (simp add: g_def)
  moreover have "?after = hd ?after # tl ?after" using m(3) by simp
  ultimately have "s = take 10 s @ (take i g @ g ! i # take 4 (drop (Suc i) g) @ drop (i + 5) g) @ hd ?after # tl ?after"
    using replace_parts [OF _ g1 g2] by blast
  then have "s = take 10 s @ take i ?gap @ ?gap ! i # take 4 (drop (Suc i) ?gap) @ drop (i + 5) ?gap @ hd ?after # tl ?after"
    unfolding g_def append_assoc append_Cons .
  moreover have "list_all (\<lambda>x. \<not> is_word_char x) (take i ?gap)"
    "list_all (\<lambda>x. \<not> is_word_char x) (take 4 (drop (Suc i) ?gap))"
    using nw by (auto simp: list_all_iff dest: in_set_takeD in_set_dropD)
  moreover have "length (take i ?gap) \<le> 4" "length (take 4 (drop (Suc i) ?gap)) \<le> 4"
    using i(2) by simp_all
  ultimately show ?thesis
    unfolding states_spec_def using m(1,4,5) i(3,4) by (intro exI conjI)
qed

end
