(* ===== verification/Triage.thy ===== *)
theory Triage
  imports Intake_Types "HOL-Library.Multiset"
begin

text \<open>
  Triage: \<open>solver/triage.py\<close>.  Every Challenge gets a Tier from what the Board states, else from the
  order of its solve counts, else from the judge.  The judge is a parameter: the composition of the
  code's \<open>judge\<close> with \<open>_prompt\<close>, from the Challenges asked about to the answer text.  Rendering and the
  Recorder are not modelled.
\<close>

section \<open>Data\<close>

datatype provenance = EXTRACTED | SOLVES | JUDGED | UNJUDGED

record Sighting =
  si_challenge_id :: TypedId
  si_name :: string
  si_solves :: int
  si_description :: string

record Judgement =
  jd_challenge_id :: TypedId
  jd_name :: string
  jd_tier :: int
  jd_provenance :: provenance
  jd_stated :: string

section \<open>What the Board states\<close>

definition stated :: "string \<Rightarrow> string" where
  "stated description = (case states_search description of None \<Rightarrow> '''' | Some w \<Rightarrow> join_space (words w))"

definition stated_word :: "string \<Rightarrow> string" where
  "stated_word s =
     (let phrase = map lower_char s in
      if map_of STATED phrase \<noteq> None then phrase else takeWhile (\<lambda>c. c \<noteq> CHR '' '') phrase)"

definition extracted :: "Sighting \<Rightarrow> Judgement option" where
  "extracted one =
     (let s = stated (si_description one) in
      case map_of STATED (stated_word s) of
        None \<Rightarrow> None
      | Some tier \<Rightarrow>
          Some \<lparr>jd_challenge_id = si_challenge_id one, jd_name = si_name one, jd_tier = tier,
                jd_provenance = EXTRACTED, jd_stated = s\<rparr>)"

section \<open>What the solve counts say\<close>

definition index_of :: "'a list \<Rightarrow> 'a \<Rightarrow> nat" where
  "index_of xs x = length (takeWhile (\<lambda>y. y \<noteq> x) xs)"

definition solve_counts :: "Sighting list \<Rightarrow> int list" where
  "solve_counts xs = rev (sort (map si_solves xs))"

definition solves_tier :: "int list \<Rightarrow> int \<Rightarrow> int" where
  "solves_tier counts n = 1 + (int (index_of counts n) * TIERS) div int (length counts)"

definition by_solves :: "Sighting list \<Rightarrow> (TypedId \<times> Judgement) list" where
  "by_solves xs =
     (let counts = solve_counts xs in
      if card (set counts) < 2 then []
      else dict_of (map (\<lambda>one. (si_challenge_id one,
             \<lparr>jd_challenge_id = si_challenge_id one, jd_name = si_name one,
              jd_tier = solves_tier counts (si_solves one), jd_provenance = SOLVES,
              jd_stated = stated (si_description one)\<rparr>)) xs))"

section \<open>What the judge answers\<close>

text \<open>\<open>str.splitlines\<close> and \<open>re.findall(r"[A-Za-z0-9_-]+", line)\<close>\<close>

definition line_break :: "char \<Rightarrow> bool" where
  "line_break c = (char_code c \<in> {10, 11, 12, 13, 28, 29, 30, 133})"

definition token_char :: "char \<Rightarrow> bool" where
  "token_char c = (is_word_char c \<or> c = CHR ''-'')"

function runs :: "(char \<Rightarrow> bool) \<Rightarrow> string \<Rightarrow> string list" where
  "runs P [] = []"
| "runs P (c # s) = (if \<not> P c then runs P s else (c # takeWhile P s) # runs P (dropWhile P s))"
  by pat_completeness auto
termination
  by (relation "measure (\<lambda>(P, s). length s)") (auto simp: le_imp_less_Suc length_dropWhile_le)

definition answer_lines :: "string \<Rightarrow> string list" where
  "answer_lines s = runs (\<lambda>c. \<not> line_break c) s"

definition tokens :: "string \<Rightarrow> string list" where
  "tokens s = runs token_char s"

definition tier_token :: "string \<Rightarrow> int option" where
  "tier_token t =
     (if t \<noteq> [] \<and> list_all is_digit t \<and> 1 \<le> int (read_nat t) \<and> int (read_nat t) \<le> TIERS
      then Some (int (read_nat t)) else None)"

fun first_tier :: "string list \<Rightarrow> int option" where
  "first_tier [] = None"
| "first_tier (t # ts) = (case tier_token t of Some n \<Rightarrow> Some n | None \<Rightarrow> first_tier ts)"

definition judgeable_ids :: "TypedId list \<Rightarrow> TypedId list" where
  "judgeable_ids ids =
     filter (\<lambda>i. count_list (map typed_id_text ids) (typed_id_text i) = 1) ids"

definition judged_line :: "(string \<times> TypedId) list \<Rightarrow> (TypedId \<times> int) list \<Rightarrow> string \<Rightarrow> (TypedId \<times> int) list" where
  "judged_line wanted given line =
     (let ts = dropWhile (\<lambda>t. map_of wanted t = None) (tokens line) in
      case ts of
        [] \<Rightarrow> given
      | named # rest \<Rightarrow>
          (case (map_of wanted named, first_tier rest) of
             (Some i, Some tier) \<Rightarrow> if map_of given i = None then dict_set i tier given else given
           | _ \<Rightarrow> given))"

definition parse_judged_tiers :: "string \<Rightarrow> TypedId list \<Rightarrow> (TypedId \<times> int) list res" where
  "parse_judged_tiers answer ids =
     (if length (judgeable_ids ids) \<noteq> length ids then Inl ValueError
      else Inr (foldl (judged_line (dict_of (map (\<lambda>i. (typed_id_text i, i)) ids))) [] (answer_lines answer)))"

definition from_the_judge :: "(TypedId \<times> int) list \<Rightarrow> Sighting \<Rightarrow> Judgement" where
  "from_the_judge judged one =
     (let tier = map_of judged (si_challenge_id one) in
      \<lparr>jd_challenge_id = si_challenge_id one, jd_name = si_name one,
       jd_tier = (case tier of None \<Rightarrow> FLOOR | Some t \<Rightarrow> t),
       jd_provenance = (case tier of None \<Rightarrow> UNJUDGED | Some _ \<Rightarrow> JUDGED),
       jd_stated = stated (si_description one)\<rparr>)"

section \<open>Triage\<close>

definition extracted_by_id :: "Sighting list \<Rightarrow> (TypedId \<times> Judgement) list" where
  "extracted_by_id xs =
     dict_of (List.map_filter (\<lambda>one. map_option (\<lambda>j. (si_challenge_id one, j)) (extracted one)) xs)"

definition triage :: "(Sighting list \<Rightarrow> string) \<Rightarrow> Sighting list \<Rightarrow> Judgement list res" where
  "triage judge challenges =
     (let ext = extracted_by_id challenges;
          remainder = filter (\<lambda>one. map_of ext (si_challenge_id one) = None) challenges;
          inferred = by_solves (filter (\<lambda>one. si_solves one > 0) remainder);
          unknown = filter (\<lambda>one. map_of inferred (si_challenge_id one) = None) remainder;
          safe_ids = judgeable_ids (map si_challenge_id unknown);
          judgeable = filter (\<lambda>one. si_challenge_id one \<in> set safe_ids) unknown
      in bind_res
           (if judgeable = [] then Inr []
            else parse_judged_tiers (judge judgeable) (map si_challenge_id judgeable))
           (\<lambda>judged.
              Inr (map (\<lambda>one.
                 case map_of ext (si_challenge_id one) of
                   Some j \<Rightarrow> j
                 | None \<Rightarrow>
                     (case map_of inferred (si_challenge_id one) of
                        Some j \<Rightarrow> j
                      | None \<Rightarrow> from_the_judge judged one)) challenges)))"

section \<open>Solve counts order the Tiers\<close>

lemma index_of_sorted_desc:
  assumes "sorted (rev xs)" "x \<in> set xs"
  shows "index_of xs x = length (filter (\<lambda>y. y > x) xs)"
  using assms
proof (induction xs)
  case (Cons a xs)
  then have le: "\<forall>y \<in> set xs. y \<le> a" and s: "sorted (rev xs)" by (auto simp: sorted_append)
  show ?case
  proof (cases "a = x")
    case True
    then have "filter (\<lambda>y. y > x) xs = []" using le by (auto simp: filter_empty_conv)
    then show ?thesis using True by (simp add: index_of_def)
  next
    case False
    then have "x \<in> set xs" "a > x" using Cons.prems le by auto
    then show ?thesis using Cons.IH [OF s] False by (simp add: index_of_def)
  qed
qed simp

lemma solve_counts_desc: "sorted (rev (solve_counts xs))"
  by (simp add: solve_counts_def)

lemma solves_tier_count:
  assumes "n \<in> set (solve_counts xs)"
  shows "solves_tier (solve_counts xs) n =
     1 + (int (length (filter (\<lambda>one. si_solves one > n) xs)) * 4) div int (length xs)"
proof -
  have "length (filter (\<lambda>y. y > n) (solve_counts xs)) = length (filter (\<lambda>y. y > n) (map si_solves xs))"
    by (rule mset_eq_length) (simp add: solve_counts_def)
  also have "\<dots> = length (filter (\<lambda>one. si_solves one > n) xs)"
    by (simp add: filter_map comp_def)
  finally show ?thesis
    using index_of_sorted_desc [OF solve_counts_desc assms]
    by (simp add: solves_tier_def TIERS_def solve_counts_def)
qed

lemma solves_tier_range:
  assumes "n \<in> set (solve_counts xs)"
  shows "1 \<le> solves_tier (solve_counts xs) n \<and> solves_tier (solve_counts xs) n \<le> 4"
proof -
  have ne: "xs \<noteq> []" using assms by (auto simp: solve_counts_def)
  obtain one where "one \<in> set xs" "\<not> si_solves one > n" using assms by (auto simp: solve_counts_def)
  then have "length (filter (\<lambda>one. si_solves one > n) xs) < length xs"
    by (rule length_filter_less)
  then have "(length (filter (\<lambda>one. si_solves one > n) xs) * 4) div length xs < 4"
    using ne by (simp add: div_less_iff_less_mult)
  then have "int ((length (filter (\<lambda>one. si_solves one > n) xs) * 4) div length xs) < 4" by simp
  then have "(int (length (filter (\<lambda>one. si_solves one > n) xs)) * 4) div int (length xs) < 4"
    by (simp add: zdiv_int)
  moreover have "0 \<le> (int (length (filter (\<lambda>one. si_solves one > n) xs)) * 4) div int (length xs)"
    by (simp add: pos_imp_zdiv_nonneg_iff ne)
  ultimately show ?thesis using solves_tier_count [OF assms] by simp
qed

lemma solves_tier_mono:
  assumes "m \<in> set (solve_counts xs)" "n \<in> set (solve_counts xs)" "m \<le> n"
  shows "solves_tier (solve_counts xs) n \<le> solves_tier (solve_counts xs) m"
proof -
  have "filter (\<lambda>one. si_solves one > n) xs = filter (\<lambda>one. si_solves one > n) (filter (\<lambda>one. si_solves one > m) xs)"
    using assms(3) by (auto intro: filter_cong)
  then have "length (filter (\<lambda>one. si_solves one > n) xs) \<le> length (filter (\<lambda>one. si_solves one > m) xs)"
    by (metis length_filter_le)
  moreover have "0 < length xs" using assms(1) by (auto simp: solve_counts_def)
  ultimately show ?thesis
    using assms(1,2) by (simp add: solves_tier_count zdiv_mono1)
qed

lemma by_solves_tier:
  assumes "map_of (by_solves xs) i = Some j"
  shows "\<exists>one \<in> set xs. i = si_challenge_id one \<and> jd_challenge_id j = i
     \<and> jd_tier j = solves_tier (solve_counts xs) (si_solves one) \<and> jd_provenance j = SOLVES
     \<and> si_solves one \<in> set (solve_counts xs)"
proof -
  have "(i, j) \<in> set (map (\<lambda>one. (si_challenge_id one,
      \<lparr>jd_challenge_id = si_challenge_id one, jd_name = si_name one,
       jd_tier = solves_tier (solve_counts xs) (si_solves one), jd_provenance = SOLVES,
       jd_stated = stated (si_description one)\<rparr>)) xs)"
    using assms map_of_dict_of_Some by (fastforce simp: by_solves_def Let_def simp del: map_of_dict_of split: if_splits)
  then obtain one where "one \<in> set xs" "i = si_challenge_id one" "jd_challenge_id j = i"
    "jd_tier j = solves_tier (solve_counts xs) (si_solves one)" "jd_provenance j = SOLVES" by auto
  moreover from this have "si_solves one \<in> set (solve_counts xs)" by (simp add: solve_counts_def)
  ultimately show ?thesis by blast
qed

section \<open>The judge is asked and read safely\<close>

lemma tier_token_range: "tier_token t = Some n \<Longrightarrow> 1 \<le> n \<and> n \<le> 4"
  by (auto simp: tier_token_def TIERS_def split: if_splits)

lemma first_tier_range: "first_tier ts = Some n \<Longrightarrow> 1 \<le> n \<and> n \<le> 4"
  by (induction ts) (auto split: option.splits dest: tier_token_range)

definition judged_ok :: "TypedId set \<Rightarrow> (TypedId \<times> int) list \<Rightarrow> bool" where
  "judged_ok ids given = (\<forall>i t. map_of given i = Some t \<longrightarrow> i \<in> ids \<and> 1 \<le> t \<and> t \<le> 4)"

lemma judged_line_ok:
  assumes "judged_ok ids given" "\<And>t i. map_of wanted t = Some i \<Longrightarrow> i \<in> ids"
  shows "judged_ok ids (judged_line wanted given line)"
  using assms first_tier_range
  by (auto simp: judged_line_def Let_def judged_ok_def split: list.split option.split if_splits)

lemma foldl_judged_ok:
  assumes "\<And>t i. map_of wanted t = Some i \<Longrightarrow> i \<in> ids"
  shows "judged_ok ids given \<Longrightarrow> judged_ok ids (foldl (judged_line wanted) given ls)"
proof (induction ls arbitrary: given)
  case (Cons l ls)
  have "judged_ok ids (judged_line wanted given l)"
    using Cons.prems assms by (rule judged_line_ok)
  then show ?case using Cons.IH by simp
qed simp

lemma parse_judged_ok:
  assumes "parse_judged_tiers answer ids = Inr given"
  shows "judged_ok (set ids) given"
proof -
  let ?w = "dict_of (map (\<lambda>i. (typed_id_text i, i)) ids)"
  have w: "i \<in> set ids" if "map_of ?w t = Some i" for t i
  proof -
    have "(t, i) \<in> set (map (\<lambda>i. (typed_id_text i, i)) ids)" using that by (rule map_of_dict_of_Some)
    then show ?thesis by auto
  qed
  have "judged_ok (set ids) []" by (simp add: judged_ok_def)
  with w have "judged_ok (set ids) (foldl (judged_line ?w) [] (answer_lines answer))"
    by (rule foldl_judged_ok)
  moreover have "given = foldl (judged_line ?w) [] (answer_lines answer)"
    using assms by (simp add: parse_judged_tiers_def split: if_splits)
  ultimately show ?thesis by simp
qed

lemma count_list_filter_le: "count_list (map f (filter P xs)) y \<le> count_list (map f xs) y"
  by (induction xs) auto

lemma judgeable_filter:
  assumes "\<And>x. x \<in> set xs \<Longrightarrow> P x \<Longrightarrow> count_list (map f xs) (f x) = 1"
  shows "x \<in> set (filter P xs) \<Longrightarrow> count_list (map f (filter P xs)) (f x) = 1"
proof -
  assume x: "x \<in> set (filter P xs)"
  then have "count_list (map f (filter P xs)) (f x) \<le> 1"
    using count_list_filter_le [of f P xs "f x"] assms by auto
  moreover have "count_list (map f (filter P xs)) (f x) \<noteq> 0"
    using x by (simp add: count_list_0_iff)
  ultimately show ?thesis by simp
qed

lemma judgeable_ids_safe:
  assumes "ids = map si_challenge_id (filter (\<lambda>one. si_challenge_id one \<in> set (judgeable_ids (map si_challenge_id unknown))) unknown)"
  shows "judgeable_ids ids = ids"
proof -
  let ?P = "\<lambda>one. si_challenge_id one \<in> set (judgeable_ids (map si_challenge_id unknown))"
  let ?f = "\<lambda>one. typed_id_text (si_challenge_id one)"
  have "count_list (map ?f unknown) (?f x) = 1" if "x \<in> set unknown" "?P x" for x
    using that by (simp add: judgeable_ids_def comp_def)
  then have "count_list (map ?f (filter ?P unknown)) (?f x) = 1" if "x \<in> set (filter ?P unknown)" for x
    using judgeable_filter [of unknown ?P ?f x] that by blast
  then show ?thesis
    unfolding assms judgeable_ids_def by (simp add: filter_id_conv comp_def)
qed

lemma parse_judged_safe:
  "judgeable_ids ids = ids \<Longrightarrow> \<exists>given. parse_judged_tiers answer ids = Inr given"
  by (simp add: parse_judged_tiers_def)

lemma extracted_by_id_tier:
  assumes "map_of (extracted_by_id xs) i = Some j"
  shows "jd_challenge_id j = i \<and> 1 \<le> jd_tier j \<and> jd_tier j \<le> 4 \<and> jd_provenance j = EXTRACTED"
  using map_of_dict_of_Some [OF assms [unfolded extracted_by_id_def]] STATED_range
  by (auto simp: map_filter_def extracted_def Let_def split: option.splits)

lemma triage_row:
  assumes "judged_ok ids judged"
  shows "jd_challenge_id (from_the_judge judged one) = si_challenge_id one
     \<and> 1 \<le> jd_tier (from_the_judge judged one) \<and> jd_tier (from_the_judge judged one) \<le> 4"
  using assms by (auto simp: from_the_judge_def Let_def judged_ok_def FLOOR_def split: option.splits)

section \<open>Properties\<close>


text \<open>C7. Solve counts order the budget: among the Challenges ranked by solves, one that was solved at
  least as often as another never gets a higher Tier, so equal counts get equal Tiers, and every Tier is
  1 plus the quarter of the field that is solved more often.\<close>

theorem by_solves_ordered:
  assumes "a \<in> set xs" "b \<in> set xs" "si_solves a \<le> si_solves b"
    and "map_of (by_solves xs) (si_challenge_id a) = Some ja" "map_of (by_solves xs) (si_challenge_id b) = Some jb"
    and "distinct (map si_challenge_id xs)"
  shows "jd_tier jb \<le> jd_tier ja
     \<and> jd_tier ja = 1 + (int (length (filter (\<lambda>one. si_solves one > si_solves a) xs)) * 4) div int (length xs)"
proof -
  obtain a' b' where
    "a' \<in> set xs" "si_challenge_id a = si_challenge_id a'" "jd_tier ja = solves_tier (solve_counts xs) (si_solves a')"
    "b' \<in> set xs" "si_challenge_id b = si_challenge_id b'" "jd_tier jb = solves_tier (solve_counts xs) (si_solves b')"
    using by_solves_tier [OF assms(4)] by_solves_tier [OF assms(5)] by auto
  moreover from this have "a' = a" "b' = b"
    using assms(1,2,6) by (auto simp: distinct_map dest: inj_onD)
  moreover have "si_solves a \<in> set (solve_counts xs)" "si_solves b \<in> set (solve_counts xs)"
    using assms(1,2) by (auto simp: solve_counts_def)
  ultimately show ?thesis
    using solves_tier_mono [of "si_solves a" xs "si_solves b"] assms(3) solves_tier_count [of "si_solves a" xs] by simp
qed

definition demo_sightings :: "Sighting list" where
  "demo_sightings =
     [\<lparr>si_challenge_id = TypedInt 1, si_name = ''a'', si_solves = 50, si_description = ''''\<rparr>,
      \<lparr>si_challenge_id = TypedInt 2, si_name = ''b'', si_solves = 3, si_description = ''''\<rparr>]"

theorem by_solves_ordered_witness:
  "\<exists>ja jb. map_of (by_solves demo_sightings) (TypedInt 2) = Some ja
     \<and> map_of (by_solves demo_sightings) (TypedInt 1) = Some jb
     \<and> jd_tier jb \<le> jd_tier ja \<and> jd_tier ja = 3"
proof -
  have "map_of (by_solves demo_sightings) (TypedInt 2) \<noteq> None" "map_of (by_solves demo_sightings) (TypedInt 1) \<noteq> None"
    by code_simp+
  then obtain ja jb where j: "map_of (by_solves demo_sightings) (TypedInt 2) = Some ja"
    "map_of (by_solves demo_sightings) (TypedInt 1) = Some jb" by blast
  have d: "distinct (map si_challenge_id demo_sightings)" by code_simp
  show ?thesis
    using by_solves_ordered [of "demo_sightings ! 1" demo_sightings "demo_sightings ! 0" ja jb] j d
    by (simp add: demo_sightings_def)
qed




end
