(* ===== verification/Civil_Time.thy ===== *)
theory Civil_Time
  imports Prelude
begin

text \<open>
  UTC datetimes as the modules exchange them.  An instant is the number of microseconds since
  0001-01-01T00:00:00+00:00; \<open>isoformat\<close> and \<open>fromisoformat\<close> are the standard library's rendering
  and parsing of it (\<open>_ord2ymd\<close> and \<open>_ymd2ord\<close> of the datetime module), and \<open>isoformat_inverse\<close>
  shows that a rendered instant reads back.  \<open>total_seconds\<close> is kept exact in microseconds and
  \<open>int(...)\<close> of it truncates towards zero.
\<close>

definition is_leap :: "int \<Rightarrow> bool" where
  "is_leap y = (y mod 4 = 0 \<and> (y mod 100 \<noteq> 0 \<or> y mod 400 = 0))"

definition days_before_year :: "int \<Rightarrow> int" where
  "days_before_year y = (let p = y - 1 in p * 365 + p div 4 - p div 100 + p div 400)"

definition month_starts :: "int list" where
  "month_starts = [0, 31, 59, 90, 120, 151, 181, 212, 243, 273, 304, 334]"

definition days_before_month :: "bool \<Rightarrow> int \<Rightarrow> int" where
  "days_before_month leap m = month_starts ! nat (m - 1) + of_bool (m > 2 \<and> leap)"

definition ymd_day :: "int \<times> int \<times> int \<Rightarrow> int" where
  "ymd_day ymd = (case ymd of (y, m, d) \<Rightarrow> days_before_year y + days_before_month (is_leap y) m + d - 1)"

definition month_of :: "bool \<Rightarrow> int \<Rightarrow> int" where
  "month_of leap n = (let m = (n + 50) div 32 in if days_before_month leap m > n then m - 1 else m)"

definition day_ymd :: "int \<Rightarrow> int \<times> int \<times> int" where
  "day_ymd n =
     (let n400 = n div 146097; r = n mod 146097; n100 = r div 36524; r' = r mod 36524;
          n4 = r' div 1461; r'' = r' mod 1461; n1 = r'' div 365; k = r'' mod 365;
          y = n400 * 400 + n100 * 100 + n4 * 4 + n1 + 1
      in if n1 = 4 \<or> n100 = 4 then (y - 1, 12, 31)
         else let leap = (n1 = 3 \<and> (n4 \<noteq> 24 \<or> n100 = 3)); m = month_of leap k
              in (y, m, k - days_before_month leap m + 1))"

section \<open>Rendering\<close>

definition pad :: "nat \<Rightarrow> int \<Rightarrow> string" where
  "pad w k = replicate (w - length (show_nat (nat k))) (digit_char 0) @ show_nat (nat k)"

definition day_us :: int where "day_us = 86400000000"

definition isoformat :: "int \<Rightarrow> string" where
  "isoformat t =
     (case day_ymd (t div day_us) of (y, m, d) \<Rightarrow>
        let s = t mod day_us div 1000000; us = t mod 1000000
        in pad 4 y @ ''-'' @ pad 2 m @ ''-'' @ pad 2 d @ ''T'' @ pad 2 (s div 3600) @ '':''
           @ pad 2 (s div 60 mod 60) @ '':'' @ pad 2 (s mod 60)
           @ (if us = 0 then [] else ''.'' @ pad 6 us) @ ''+00:00'')"

text \<open>\<open>fromisoformat\<close> on the shapes that \<open>isoformat\<close> writes.\<close>

definition num_at :: "string \<Rightarrow> nat \<Rightarrow> nat \<Rightarrow> int option" where
  "num_at s i w =
     (let t = take w (drop i s)
      in if length t = w \<and> list_all is_digit t then Some (int (read_nat t)) else None)"

definition days_in_month :: "bool \<Rightarrow> int \<Rightarrow> int" where
  "days_in_month leap m = (if m = 2 \<and> leap then 29 else [31, 28, 31, 30, 31, 30, 31, 31, 30, 31, 30, 31] ! nat (m - 1))"

definition fromisoformat :: "string \<Rightarrow> int res" where
  "fromisoformat s =
     bind_res (need (num_at s 0 4) ValueError) (\<lambda>y.
     bind_res (need (num_at s 5 2) ValueError) (\<lambda>m.
     bind_res (need (num_at s 8 2) ValueError) (\<lambda>d.
     bind_res (need (num_at s 11 2) ValueError) (\<lambda>hh.
     bind_res (need (num_at s 14 2) ValueError) (\<lambda>mm.
     bind_res (need (num_at s 17 2) ValueError) (\<lambda>ss.
     bind_res (if length s = 25 then Inr 0 else need (num_at s 20 6) ValueError) (\<lambda>us.
     bind_res (guard_res
       ((length s = 25 \<or> length s = 32 \<and> s ! 19 = CHR ''.'')
        \<and> s ! 4 = CHR ''-'' \<and> s ! 7 = CHR ''-'' \<and> s ! 10 = CHR ''T'' \<and> s ! 13 = CHR '':'' \<and> s ! 16 = CHR '':''
        \<and> drop (length s - 6) s = ''+00:00''
        \<and> 1 \<le> y \<and> 1 \<le> m \<and> m \<le> 12 \<and> 1 \<le> d \<and> d \<le> days_in_month (is_leap y) m \<and> hh < 24 \<and> mm < 60 \<and> ss < 60) ValueError)
     (\<lambda>_. Inr (ymd_day (y, m, d) * day_us + ((hh * 60 + mm) * 60 + ss) * 1000000 + us)))))))))"

text \<open>\<open>int(delta.total_seconds())\<close>\<close>

definition trunc_seconds :: "int \<Rightarrow> int" where
  "trunc_seconds us = (if us < 0 then - ((- us) div 1000000) else us div 1000000)"

lemma trunc_seconds_le: "0 \<le> us \<Longrightarrow> trunc_seconds us * 1000000 \<le> us"
  unfolding trunc_seconds_def by simp

lemma trunc_seconds_pos: "0 < trunc_seconds us \<Longrightarrow> trunc_seconds us * 1000000 \<le> us"
  unfolding trunc_seconds_def by (simp split: if_splits)

section \<open>The calendar\<close>

lemma year_parts:
  fixes a b c e :: int
  assumes "0 \<le> b" "b \<le> 3" "0 \<le> c" "c \<le> 24" "0 \<le> e" "e \<le> 3"
  shows "(a * 400 + b * 100 + c * 4 + e) div 4 = a * 100 + b * 25 + c"
    "(a * 400 + b * 100 + c * 4 + e) div 100 = a * 4 + b"
    "(a * 400 + b * 100 + c * 4 + e) div 400 = a"
  using assms by linarith+

lemma leap_parts:
  fixes a b c e :: int
  assumes "0 \<le> b" "b \<le> 3" "0 \<le> c" "c \<le> 24" "0 \<le> e" "e \<le> 3"
  shows "is_leap (a * 400 + b * 100 + c * 4 + e + 1) \<longleftrightarrow> e = 3 \<and> (c \<noteq> 24 \<or> b = 3)"
proof -
  have shift: "(x + m * q) mod m = x mod m" for x m q :: int by simp
  have "a * 400 + b * 100 + c * 4 + e + 1 = (e + 1) + 4 * (a * 100 + b * 25 + c)" by simp
  then have 4: "(a * 400 + b * 100 + c * 4 + e + 1) mod 4 = (e + 1) mod 4" by (simp only: shift)
  have "a * 400 + b * 100 + c * 4 + e + 1 = (c * 4 + e + 1) + 100 * (a * 4 + b)" by simp
  then have 100: "(a * 400 + b * 100 + c * 4 + e + 1) mod 100 = (c * 4 + e + 1) mod 100" by (simp only: shift)
  have "a * 400 + b * 100 + c * 4 + e + 1 = (b * 100 + c * 4 + e + 1) + 400 * a" by simp
  then have 400: "(a * 400 + b * 100 + c * 4 + e + 1) mod 400 = (b * 100 + c * 4 + e + 1) mod 400" by (simp only: shift)
  have full: "x mod m = 0 \<longleftrightarrow> x = m" if "0 < x" "x \<le> m" for x m :: int
    using that by (cases "x = m") (simp_all add: mod_pos_pos_trivial)
  have "(e + 1) mod 4 = 0 \<longleftrightarrow> e = 3" using full [of "e + 1" 4] assms by auto
  moreover have "(c * 4 + 3 + 1) mod 100 = 0 \<longleftrightarrow> c = 24" using full [of "c * 4 + 3 + 1" 100] assms by auto
  moreover have "(b * 100 + 24 * 4 + 3 + 1) mod 400 = 0 \<longleftrightarrow> b = 3"
    using full [of "b * 100 + 24 * 4 + 3 + 1" 400] assms by auto
  ultimately show ?thesis unfolding is_leap_def 4 100 400 by auto
qed

lemma before_year_parts:
  fixes a b c e :: int
  assumes "0 \<le> b" "b \<le> 3" "0 \<le> c" "c \<le> 24" "0 \<le> e" "e \<le> 3"
  shows "days_before_year (a * 400 + b * 100 + c * 4 + e + 1) = a * 146097 + b * 36524 + c * 1461 + e * 365"
  unfolding days_before_year_def Let_def using year_parts [OF assms, of a] by simp

text \<open>The mixed-radix digits of a day number.\<close>

lemma day_digits:
  fixes n :: int
  obtains a b c e k where
    "n div 146097 = a" "n mod 146097 div 36524 = b" "n mod 146097 mod 36524 div 1461 = c"
    "n mod 146097 mod 36524 mod 1461 div 365 = e" "n mod 146097 mod 36524 mod 1461 mod 365 = k"
    "n = a * 146097 + b * 36524 + c * 1461 + e * 365 + k"
    "0 \<le> b" "b \<le> 4" "0 \<le> c" "c \<le> 24" "0 \<le> e" "e \<le> 4" "0 \<le> k" "k < 365"
    "b = 4 \<longrightarrow> c = 0 \<and> e = 0 \<and> k = 0" "e = 4 \<longrightarrow> k = 0 \<and> b \<noteq> 4 \<and> (c = 24 \<longrightarrow> b = 4)"
proof -
  define a b c e k where d: "a = n div 146097" "b = n mod 146097 div 36524"
    "c = n mod 146097 mod 36524 div 1461" "e = n mod 146097 mod 36524 mod 1461 div 365"
    "k = n mod 146097 mod 36524 mod 1461 mod 365"
  define r r1 r2 where r: "r = n mod 146097" "r1 = r mod 36524" "r2 = r1 mod 1461"
  have n: "n = a * 146097 + r" "r = b * 36524 + r1" "r1 = c * 1461 + r2" "r2 = e * 365 + k"
    unfolding d r by (simp_all only: div_mult_mod_eq)
  have bounds: "0 \<le> r" "r < 146097" "0 \<le> r1" "r1 < 36524" "0 \<le> r2" "r2 < 1461" "0 \<le> k" "k < 365"
    unfolding d r by (rule pos_mod_sign pos_mod_bound, simp)+
  have b: "0 \<le> b" "b \<le> 4" using n(2) bounds(1-4) by linarith+
  have c: "0 \<le> c" "c \<le> 24" using n(3) bounds(3-6) by linarith+
  have e: "0 \<le> e" "e \<le> 4" using n(4) bounds(5-8) by linarith+
  have z: "b = 4 \<longrightarrow> c = 0 \<and> e = 0 \<and> k = 0"
  proof
    assume "b = 4"
    then have "r1 \<le> 0" using n(2) bounds(2) by linarith
    then show "c = 0 \<and> e = 0 \<and> k = 0" using n(3,4) bounds(3,5,7) c(1) e(1) by linarith
  qed
  have z4: "e = 4 \<longrightarrow> k = 0 \<and> b \<noteq> 4 \<and> (c = 24 \<longrightarrow> b = 4)"
  proof
    assume e4: "e = 4"
    then have "r2 = 1460" "k = 0" using n(4) bounds(6,7) by linarith+
    moreover have "b \<noteq> 4" using z e4 by auto
    moreover have "c \<noteq> 24" using n(3) bounds(4) calculation(1) by linarith
    ultimately show "k = 0 \<and> b \<noteq> 4 \<and> (c = 24 \<longrightarrow> b = 4)" by simp
  qed
  have sum: "n = a * 146097 + b * 36524 + c * 1461 + e * 365 + k" using n by linarith
  show ?thesis
    by (rule that [OF d(1) [symmetric] d(2) [symmetric] d(3) [symmetric] d(4) [symmetric] d(5) [symmetric]
          sum b c e bounds(7,8) z z4])
qed

lemma month_starts_nth:
  "month_starts ! 0 = 0" "month_starts ! Suc 0 = 31" "month_starts ! 11 = 334"
  by (simp_all add: month_starts_def)

lemma ymd_day_day_ymd: "ymd_day (day_ymd n) = n"
proof -
  obtain a b c e k where d: "n div 146097 = a" "n mod 146097 div 36524 = b"
    "n mod 146097 mod 36524 div 1461 = c" "n mod 146097 mod 36524 mod 1461 div 365 = e"
    "n mod 146097 mod 36524 mod 1461 mod 365 = k"
    and n: "n = a * 146097 + b * 36524 + c * 1461 + e * 365 + k"
    and r: "0 \<le> b" "b \<le> 4" "0 \<le> c" "c \<le> 24" "0 \<le> e" "e \<le> 4" "0 \<le> k" "k < 365"
    and s4: "b = 4 \<longrightarrow> c = 0 \<and> e = 0 \<and> k = 0" "e = 4 \<longrightarrow> k = 0 \<and> b \<noteq> 4 \<and> (c = 24 \<longrightarrow> b = 4)"
    by (rule day_digits)
  let ?y = "a * 400 + b * 100 + c * 4 + e"
  let ?leap = "e = 3 \<and> (c \<noteq> 24 \<or> b = 3)"
  have day: "day_ymd n = (if e = 4 \<or> b = 4 then (?y, 12, 31)
      else (?y + 1, month_of ?leap k, k - days_before_month ?leap (month_of ?leap k) + 1))"
    unfolding day_ymd_def Let_def d by (simp only: add_diff_cancel_right')
  have dec: "days_before_month l 12 = 334 + of_bool l" for l
    by (simp add: days_before_month_def month_starts_nth)
  have b3: "b \<noteq> 4 \<Longrightarrow> b \<le> 3" and e3: "e \<noteq> 4 \<Longrightarrow> e \<le> 3" and c23: "c \<noteq> 24 \<Longrightarrow> c \<le> 23"
    using r(2,4,6) by simp_all
  consider "b = 4" | "e = 4" "b \<le> 3" "c \<le> 23" | "b \<le> 3" "e \<le> 3"
    using b3 e3 c23 s4 by blast
  then show ?thesis
  proof cases
    case 1
    have z: "c = 0" "e = 0" "k = 0" using s4 1 by blast+
    have y: "?y = a * 400 + 3 * 100 + 24 * 4 + 3 + 1" unfolding 1 z by linarith
    have leap: "is_leap ?y" unfolding y by (subst leap_parts) simp_all
    have before: "days_before_year ?y = a * 146097 + 3 * 36524 + 24 * 1461 + 3 * 365"
      unfolding y by (rule before_year_parts) simp_all
    have "day_ymd n = (?y, 12, 31)" unfolding day using 1 by (simp only: simp_thms if_True)
    then have "ymd_day (day_ymd n) = days_before_year ?y + (334 + 1) + 31 - 1"
      using leap by (simp only: ymd_day_def prod.case dec of_bool_eq)
    then show ?thesis unfolding before using n 1 z by linarith
  next
    case 2
    have z: "k = 0" using s4 2 by blast
    have y: "?y = a * 400 + b * 100 + c * 4 + 3 + 1" unfolding 2(1) by linarith
    have leap: "is_leap ?y" unfolding y by (subst leap_parts) (use 2(2,3) r(1,3) in simp_all)
    have before: "days_before_year ?y = a * 146097 + b * 36524 + c * 1461 + 3 * 365"
      unfolding y by (rule before_year_parts) (use 2(2,3) r(1,3) in simp_all)
    have "day_ymd n = (?y, 12, 31)" unfolding day using 2 by (simp only: simp_thms if_True)
    then have "ymd_day (day_ymd n) = days_before_year ?y + (334 + 1) + 31 - 1"
      using leap by (simp only: ymd_day_def prod.case dec of_bool_eq)
    then show ?thesis unfolding before using n 2(1) z by linarith
  next
    case 3
    have leap: "is_leap (?y + 1) \<longleftrightarrow> ?leap"
      and before: "days_before_year (?y + 1) = a * 146097 + b * 36524 + c * 1461 + e * 365"
      using leap_parts [of b c e a] before_year_parts [of b c e a] 3 r by blast+
    have "e \<noteq> 4" "b \<noteq> 4" using 3 by simp_all
    then have "day_ymd n = (?y + 1, month_of ?leap k, k - days_before_month ?leap (month_of ?leap k) + 1)"
      unfolding day by (simp only: simp_thms if_False)
    then have "ymd_day (day_ymd n) = days_before_year (?y + 1) + days_before_month ?leap (month_of ?leap k)
        + (k - days_before_month ?leap (month_of ?leap k) + 1) - 1"
      by (simp only: ymd_day_def prod.case leap)
    then show ?thesis unfolding before using n by linarith
  qed
qed

lemma month_table:
  "list_all (\<lambda>k. list_all (\<lambda>leap.
     (let m = month_of leap k; d = k - days_before_month leap m + 1
      in 1 \<le> m \<and> m \<le> 12 \<and> 1 \<le> d \<and> d \<le> days_in_month leap m)) [True, False]) [0..364]"
  by code_simp

lemma month_range:
  assumes "0 \<le> k" "k < 365"
  shows "1 \<le> month_of leap k" "month_of leap k \<le> 12" "1 \<le> k - days_before_month leap (month_of leap k) + 1"
    "k - days_before_month leap (month_of leap k) + 1 \<le> days_in_month leap (month_of leap k)"
proof -
  have "k \<in> set [0..364]" "leap \<in> set [True, False]" using assms by auto
  then have "let m = month_of leap k; d = k - days_before_month leap m + 1
      in 1 \<le> m \<and> m \<le> 12 \<and> 1 \<le> d \<and> d \<le> days_in_month leap m"
    using month_table unfolding list_all_iff by blast
  then show "1 \<le> month_of leap k" "month_of leap k \<le> 12" "1 \<le> k - days_before_month leap (month_of leap k) + 1"
    "k - days_before_month leap (month_of leap k) + 1 \<le> days_in_month leap (month_of leap k)"
    unfolding Let_def by blast+
qed

lemma days_in_month_le: "1 \<le> m \<Longrightarrow> m \<le> 12 \<Longrightarrow> days_in_month leap m \<le> 31"
proof -
  assume "1 \<le> m" "m \<le> 12"
  then have "m \<in> set [1..12]" by simp
  moreover have "list_all (\<lambda>m. days_in_month True m \<le> 31 \<and> days_in_month False m \<le> 31) [1..12]" by code_simp
  ultimately have "days_in_month True m \<le> 31 \<and> days_in_month False m \<le> 31"
    unfolding list_all_iff by blast
  then show ?thesis by (cases leap) simp_all
qed

text \<open>The days of the years 1 to 9999.\<close>

definition max_day :: int where "max_day = 3652059"

lemma day_ymd_range:
  assumes "0 \<le> n" "n < max_day" "day_ymd n = (y, m, d)"
  shows "1 \<le> y \<and> y \<le> 9999 \<and> 1 \<le> m \<and> m \<le> 12 \<and> 1 \<le> d \<and> d \<le> days_in_month (is_leap y) m"
proof -
  obtain a b c e k where q: "n div 146097 = a" "n mod 146097 div 36524 = b"
    "n mod 146097 mod 36524 div 1461 = c" "n mod 146097 mod 36524 mod 1461 div 365 = e"
    "n mod 146097 mod 36524 mod 1461 mod 365 = k"
    and n: "n = a * 146097 + b * 36524 + c * 1461 + e * 365 + k"
    and r: "0 \<le> b" "b \<le> 4" "0 \<le> c" "c \<le> 24" "0 \<le> e" "e \<le> 4" "0 \<le> k" "k < 365"
    and s4: "b = 4 \<longrightarrow> c = 0 \<and> e = 0 \<and> k = 0" "e = 4 \<longrightarrow> k = 0 \<and> b \<noteq> 4 \<and> (c = 24 \<longrightarrow> b = 4)"
    by (rule day_digits)
  let ?y = "a * 400 + b * 100 + c * 4 + e"
  let ?leap = "e = 3 \<and> (c \<noteq> 24 \<or> b = 3)"
  have day: "day_ymd n = (if e = 4 \<or> b = 4 then (?y, 12, 31)
      else (?y + 1, month_of ?leap k, k - days_before_month ?leap (month_of ?leap k) + 1))"
    unfolding day_ymd_def Let_def q by (simp only: add_diff_cancel_right')
  have "0 \<le> a" using q(1) assms(1) pos_imp_zdiv_nonneg_iff [of 146097 n] by simp
  have less: "n < 3652059" using assms(2) by (simp add: max_day_def)
  show ?thesis
  proof (cases "e = 4 \<or> b = 4")
    case True
    then have v: "y = ?y" "m = 12" "d = 31" using assms(3) unfolding day by (simp_all only: if_True prod.inject)
    have "1 \<le> ?y" using True r \<open>0 \<le> a\<close> by linarith
    moreover have "?y \<le> 9999"
    proof (rule ccontr)
      assume "\<not> ?y \<le> 9999"
      then have "10000 \<le> ?y" by simp
      then show False using n less r by linarith
    qed
    moreover have "days_in_month l 12 = 31" for l by (simp add: days_in_month_def)
    ultimately show ?thesis unfolding v by simp
  next
    case False
    then have "(y, m, d) = (?y + 1, month_of ?leap k, k - days_before_month ?leap (month_of ?leap k) + 1)"
      using assms(3) unfolding day by (simp only: if_False)
    then have v: "y = ?y + 1" "m = month_of ?leap k" "d = k - days_before_month ?leap (month_of ?leap k) + 1"
      by blast+
    have b: "b \<le> 3" "e \<le> 3" using False r by simp_all
    have "is_leap y = ?leap" unfolding v(1) using leap_parts [of b c e a] b r by blast
    moreover have "1 \<le> y" "y \<le> 9999"
    proof -
      show "1 \<le> y" using v(1) r \<open>0 \<le> a\<close> by linarith
      show "y \<le> 9999" using v(1) n less r b by linarith
    qed
    ultimately show ?thesis using month_range [OF r(7,8), of ?leap] v(2,3) by simp
  qed
qed

section \<open>Reading back\<close>

lemma length_show_nat: "n < 10 ^ w \<Longrightarrow> 0 < w \<Longrightarrow> length (show_nat n) \<le> w"
proof (induction w arbitrary: n)
  case (Suc w)
  show ?case
  proof (cases "n < 10")
    case True
    then show ?thesis by (simp add: show_nat.simps [of n])
  next
    case False
    then have "0 < w" using Suc.prems(1) by (cases w) simp_all
    moreover have "n div 10 < 10 ^ w" using Suc.prems(1) by (simp add: less_mult_imp_div_less)
    ultimately show ?thesis using Suc.IH [of "n div 10"] False by (simp add: show_nat.simps [of n])
  qed
qed simp

lemma length_pad: "0 \<le> k \<Longrightarrow> k < 10 ^ w \<Longrightarrow> 0 < w \<Longrightarrow> length (pad w k) = w"
  using length_show_nat [of "nat k" w] by (simp add: pad_def nat_less_iff)

lemma pad_digits: "list_all is_digit (pad w k)"
  using show_nat_digits by (auto simp: pad_def list_all_iff)

lemma read_pad: "0 \<le> k \<Longrightarrow> int (read_nat (pad w k)) = k"
  by (simp add: pad_def read_nat_zeros)

lemma num_at_pad:
  assumes "length p = i" "0 \<le> k" "k < 10 ^ w" "0 < w"
  shows "num_at (p @ pad w k @ q) i w = Some k"
  using assms by (simp add: num_at_def length_pad pad_digits read_pad)

lemma clock_parts:
  fixes t :: int
  defines "s \<equiv> t mod day_us div 1000000"
  shows "0 \<le> s div 3600" "s div 3600 < 24" "0 \<le> s div 60 mod 60" "s div 60 mod 60 < 60"
    "0 \<le> s mod 60" "s mod 60 < 60" "0 \<le> t mod 1000000" "t mod 1000000 < 1000000"
    "t = t div day_us * day_us + ((s div 3600 * 60 + s div 60 mod 60) * 60 + s mod 60) * 1000000 + t mod 1000000"
proof -
  have r: "0 \<le> t mod day_us" "t mod day_us < 86400000000" by (simp_all add: day_us_def)
  have s: "0 \<le> s" "s < 86400" using r unfolding s_def by simp_all
  show "0 \<le> s div 3600" "s div 3600 < 24" "0 \<le> s div 60 mod 60" "s div 60 mod 60 < 60" "0 \<le> s mod 60" "s mod 60 < 60"
    using s by simp_all
  show "0 \<le> t mod 1000000" "t mod 1000000 < 1000000" by simp_all
  have "s div 60 div 60 = s div 3600" by (simp add: zdiv_zmult2_eq [symmetric])
  then have "s div 3600 * 60 + s div 60 mod 60 = s div 60" using div_mult_mod_eq [of "s div 60" 60] by simp
  then have whole: "(s div 3600 * 60 + s div 60 mod 60) * 60 + s mod 60 = s" using div_mult_mod_eq [of s 60] by simp
  have "t mod day_us mod 1000000 = t mod 1000000" by (simp add: day_us_def mod_mod_cancel)
  then have rest: "s * 1000000 + t mod 1000000 = t mod day_us"
    using div_mult_mod_eq [of "t mod day_us" 1000000] by (simp add: s_def)
  show "t = t div day_us * day_us + ((s div 3600 * 60 + s div 60 mod 60) * 60 + s mod 60) * 1000000 + t mod 1000000"
    unfolding whole add.assoc rest by (simp only: div_mult_mod_eq)
qed

lemma fromisoformat_parts:
  assumes v: "0 \<le> y" "y \<le> 9999" "0 \<le> m" "m \<le> 99" "0 \<le> d" "d \<le> 99" "0 \<le> h" "h \<le> 99" "0 \<le> i" "i \<le> 99"
      "0 \<le> c" "c \<le> 99" "0 \<le> us" "us < 1000000"
    and ok: "1 \<le> y" "1 \<le> m" "m \<le> 12" "1 \<le> d" "d \<le> days_in_month (is_leap y) m" "h < 24" "i < 60" "c < 60"
  shows "fromisoformat (pad 4 y @ ''-'' @ pad 2 m @ ''-'' @ pad 2 d @ ''T'' @ pad 2 h @ '':'' @ pad 2 i @ '':'' @ pad 2 c
      @ (if us = 0 then [] else ''.'' @ pad 6 us) @ ''+00:00'')
    = Inr (ymd_day (y, m, d) * day_us + ((h * 60 + i) * 60 + c) * 1000000 + us)"
    (is "fromisoformat ?s = _")
proof -
  have len: "length (pad 4 y) = 4" "length (pad 2 m) = 2" "length (pad 2 d) = 2" "length (pad 2 h) = 2"
    "length (pad 2 i) = 2" "length (pad 2 c) = 2" "length (pad 6 us) = 6"
    using v by (simp_all add: length_pad)
  have n: "num_at ?s 0 4 = Some y" "num_at ?s 5 2 = Some m" "num_at ?s 8 2 = Some d" "num_at ?s 11 2 = Some h"
    "num_at ?s 14 2 = Some i" "num_at ?s 17 2 = Some c"
    using num_at_pad [of "[]" 0 y 4] num_at_pad [of "pad 4 y @ ''-''" 5 m 2]
      num_at_pad [of "pad 4 y @ ''-'' @ pad 2 m @ ''-''" 8 d 2]
      num_at_pad [of "pad 4 y @ ''-'' @ pad 2 m @ ''-'' @ pad 2 d @ ''T''" 11 h 2]
      num_at_pad [of "pad 4 y @ ''-'' @ pad 2 m @ ''-'' @ pad 2 d @ ''T'' @ pad 2 h @ '':''" 14 i 2]
      num_at_pad [of "pad 4 y @ ''-'' @ pad 2 m @ ''-'' @ pad 2 d @ ''T'' @ pad 2 h @ '':'' @ pad 2 i @ '':''" 17 c 2]
      v len by simp_all
  have sep: "?s ! 4 = CHR ''-''" "?s ! 7 = CHR ''-''" "?s ! 10 = CHR ''T''" "?s ! 13 = CHR '':''" "?s ! 16 = CHR '':''"
    using len by (simp_all add: nth_append)
  have us: "num_at ?s 20 6 = Some us" "?s ! 19 = CHR ''.''" "length ?s = 32" if "us \<noteq> 0"
    using num_at_pad [of "pad 4 y @ ''-'' @ pad 2 m @ ''-'' @ pad 2 d @ ''T'' @ pad 2 h @ '':'' @ pad 2 i @ '':'' @ pad 2 c @ ''.''" 20 us 6]
      that v len by (simp_all add: nth_append)
  have us0: "length ?s = 25" if "us = 0" using that len by simp
  have "(if length ?s = 25 then Inr 0 else need (num_at ?s 20 6) ValueError) = Inr us"
    using us us0 by (cases "us = 0") simp_all
  moreover have "drop (length ?s - 6) ?s = ''+00:00''" using len by (cases "us = 0") simp_all
  moreover have "length ?s = 25 \<or> length ?s = 32 \<and> ?s ! 19 = CHR ''.''" using us us0 by (cases "us = 0") blast+
  ultimately show ?thesis
    unfolding fromisoformat_def using n sep ok by (simp only: need_simps bind_res_simps guard_res_def if_True simp_thms)
qed

lemma isoformat_inverse:
  assumes "0 \<le> t" "t < max_day * day_us"
  shows "fromisoformat (isoformat t) = Inr t"
proof -
  obtain y m d where ymd: "day_ymd (t div day_us) = (y, m, d)" by (cases "day_ymd (t div day_us)")
  have "0 \<le> t div day_us" "t div day_us < max_day"
    using assms by (simp_all add: day_us_def pos_imp_zdiv_nonneg_iff max_day_def)
  then have r: "1 \<le> y" "y \<le> 9999" "1 \<le> m" "m \<le> 12" "1 \<le> d" "d \<le> days_in_month (is_leap y) m"
    using day_ymd_range [OF _ _ ymd] by simp_all
  have "d \<le> 31" using r(6) days_in_month_le [OF r(3,4), of "is_leap y"] by simp
  define h mi c us where p: "h = t mod day_us div 1000000 div 3600" "mi = t mod day_us div 1000000 div 60 mod 60"
    "c = t mod day_us div 1000000 mod 60" "us = t mod 1000000"
  note parts = clock_parts [of t, folded p]
  have day: "ymd_day (y, m, d) = t div day_us" using ymd_day_day_ymd [of "t div day_us"] unfolding ymd .
  have "fromisoformat (isoformat t) = Inr (ymd_day (y, m, d) * day_us + ((h * 60 + mi) * 60 + c) * 1000000 + us)"
    unfolding isoformat_def ymd prod.case Let_def p [symmetric]
    by (rule fromisoformat_parts) (use r parts(1-8) \<open>d \<le> 31\<close> in simp_all)
  then show ?thesis unfolding day parts(9) [symmetric] .
qed

end
