(* ===== verification/Order_Documents.thy ===== *)
theory Order_Documents
  imports Event_Store Intake_Types Civil_Time
begin

text \<open>
  The data of \<open>solver/order_policy.py\<close>: the frozen dataclasses with their fields, and the
  \<open>document()\<close> of each, whose canonical bytes are digested and sealed with a decision.  A
  \<open>Fraction\<close> is a \<open>rat\<close> and a datetime a UTC instant in microseconds.
\<close>

section \<open>Facts\<close>

record PolicyDials =
  pd_version :: int
  pd_sample_min_seconds :: int
  pd_crowd_max_age_seconds :: int
  pd_crowd_min_new_solves :: int
  pd_crowd_min_moving_challenges :: int
  pd_crowd_min_distinct_velocities :: int
  pd_crowd_max_tie_numerator :: int
  pd_crowd_max_tie_denominator :: int
  pd_w_crowd :: rat
  pd_w_value :: rat
  pd_w_lease :: rat
  pd_w_progress :: rat
  pd_w_category :: rat
  pd_w_spend :: rat
  pd_knee_seconds :: int
  pd_floor_seconds :: int
  pd_tier_step :: rat
  pd_ceiling_fraction :: rat
  pd_attempts_full :: int
  pd_checkpoints_full :: int
  pd_tier_cap :: int
  pd_explore_every :: int
  pd_concurrency :: int

definition default_dials :: PolicyDials where
  "default_dials =
     \<lparr>pd_version = 2, pd_sample_min_seconds = 300, pd_crowd_max_age_seconds = 1800,
      pd_crowd_min_new_solves = 5, pd_crowd_min_moving_challenges = 3,
      pd_crowd_min_distinct_velocities = 3, pd_crowd_max_tie_numerator = 3,
      pd_crowd_max_tie_denominator = 4, pd_w_crowd = 1, pd_w_value = 1 / 2, pd_w_lease = 3 / 4,
      pd_w_progress = 5 / 4, pd_w_category = 1, pd_w_spend = 3 / 2, pd_knee_seconds = 600,
      pd_floor_seconds = 300, pd_tier_step = 1 / 4, pd_ceiling_fraction = 1 / 5,
      pd_attempts_full = 6, pd_checkpoints_full = 3, pd_tier_cap = 3, pd_explore_every = 4,
      pd_concurrency = 1\<rparr>"

record CrowdSource =
  cw_structurally_trusted :: bool
  cw_synthetic :: bool
  cw_control_digest :: string

record OrderAuthority =
  oa_snapshot :: IntakeSnapshot
  oa_fence :: PriorFence
  oa_history :: "IntakeSnapshot list"
  oa_effective_max_challenges :: int
  oa_crowd_source :: CrowdSource

record AdmissionFact =
  ad_challenge_id :: TypedId
  ad_admissible :: bool
  ad_reason :: string
  ad_evidence_digest :: string
  ad_safe_deadline :: "int option"

record AttemptFact =
  at_challenge_id :: TypedId
  at_attempt_id :: string
  at_category :: string
  at_seconds_ms :: int
  at_checkpoints :: int
  at_disposition :: string
  at_source_event_digest :: string
  at_checkpoint_event_digests :: "string list"

record PriorCrowd =
  pc_challenge_id :: TypedId
  pc_state :: string
  pc_consecutive_passes :: int
  pc_consecutive_failures :: int
  pc_velocity :: "rat option"
  pc_last_qualified_tier :: "int option"
  pc_source_event_digest :: string
  pc_qualified_at :: "int option"

record DurableTier =
  du_challenge_id :: TypedId
  du_tier :: int
  du_source_event_digest :: string

record ActiveGrant =
  ag_attempt_id :: string
  ag_generation_id :: string
  ag_challenge_id :: TypedId
  ag_tier :: int
  ag_budget_s :: int
  ag_deadline :: int
  ag_order_event_digest :: string

record OrderFence =
  fe_publication_id :: string
  fe_decision_digest :: string
  fe_boundary_event_digest :: string

record OrderRunFacts =
  rf_boundary_id :: string
  rf_boundary_at :: int
  rf_final_submission_cutoff :: int
  rf_window_seconds :: int
  rf_next_generation :: int
  rf_window_digest :: string
  rf_generation_projection_digest :: string
  rf_intake_event_digest :: string
  rf_submission_tail_seconds :: int
  rf_boundary_clock_event_digest :: string
  rf_leased :: "TypedId list"
  rf_solved :: "TypedId list"
  rf_active_grants :: "ActiveGrant list"
  rf_attempts :: "AttemptFact list"
  rf_prior_crowd :: "PriorCrowd list"
  rf_durable_tiers :: "DurableTier list"
  rf_admission :: "AdmissionFact list"
  rf_prior_order_fence :: OrderFence
  rf_boundary_fact_event_digest :: string
  rf_final_chance_available :: bool

record OrderInput =
  oi_authority :: OrderAuthority
  oi_run :: OrderRunFacts
  oi_dials :: PolicyDials

record CrowdDecision =
  cd_state :: string
  cd_reason :: string
  cd_velocity :: "rat option"
  cd_percentile :: rat
  cd_reliability :: rat
  cd_activity_digest :: string

record Components =
  co_crowd :: rat
  co_value :: rat
  co_lease :: rat
  co_progress :: rat
  co_category :: rat
  co_spend :: rat

record OrderRow =
  or_challenge_id :: TypedId
  or_name :: string
  or_category :: string
  or_revision_digest :: string
  or_rank :: int
  or_order_value :: rat
  or_components :: Components
  or_crowd :: CrowdDecision
  or_base_tier :: int
  or_final_tier :: int
  or_budget_s :: int
  or_committed :: bool
  or_demoted :: bool
  or_deferred_reason :: string
  or_deferred_evidence_digest :: string
  or_tie_break :: "int \<times> TypedId"

record OrderDecision =
  od_boundary_id :: string
  od_boundary_at :: int
  od_snapshot_digest :: string
  od_intake_fence :: PriorFence
  od_policy_digest :: string
  od_input_digest :: string
  od_input_document :: payload
  od_order_value_basis :: string
  od_fallback_reason :: string
  od_rows :: "OrderRow list"
  od_working_set :: "TypedId list"
  od_active_grants :: "ActiveGrant list"
  od_grant :: "ActiveGrant option"
  od_grant_exploring :: bool
  od_interval :: string
  od_final_interval_seconds :: int
  od_history_digests :: "string list"

record OrderTransition =
  tr_passed :: bool
  tr_reason :: string
  tr_velocities :: "(TypedId \<times> rat) list"
  tr_activity_digest :: string

section \<open>Documents\<close>

text \<open>The \<open>document()\<close> of each record, whose canonical bytes are digested.\<close>

definition fraction :: "rat \<Rightarrow> json" where
  "fraction r = (case quotient_of r of (n, d) \<Rightarrow> JObj [(''numerator'', JInt n), (''denominator'', JInt d)])"

fun opt_doc :: "('a \<Rightarrow> json) \<Rightarrow> 'a option \<Rightarrow> json" where
  "opt_doc f None = JNull"
| "opt_doc f (Some x) = f x"

definition iso :: "int \<Rightarrow> json" where
  "iso t = JStr (isoformat t)"

definition dials_document :: "PolicyDials \<Rightarrow> payload" where
  "dials_document d =
     [(''version'', JInt (pd_version d)), (''sample_min_seconds'', JInt (pd_sample_min_seconds d)),
      (''crowd_max_age_seconds'', JInt (pd_crowd_max_age_seconds d)),
      (''crowd_min_new_solves'', JInt (pd_crowd_min_new_solves d)),
      (''crowd_min_moving_challenges'', JInt (pd_crowd_min_moving_challenges d)),
      (''crowd_min_distinct_velocities'', JInt (pd_crowd_min_distinct_velocities d)),
      (''crowd_max_tie_numerator'', JInt (pd_crowd_max_tie_numerator d)),
      (''crowd_max_tie_denominator'', JInt (pd_crowd_max_tie_denominator d)),
      (''w_crowd'', fraction (pd_w_crowd d)), (''w_value'', fraction (pd_w_value d)),
      (''w_lease'', fraction (pd_w_lease d)), (''w_progress'', fraction (pd_w_progress d)),
      (''w_category'', fraction (pd_w_category d)), (''w_spend'', fraction (pd_w_spend d)),
      (''knee_seconds'', JInt (pd_knee_seconds d)), (''floor_seconds'', JInt (pd_floor_seconds d)),
      (''tier_step'', fraction (pd_tier_step d)), (''ceiling_fraction'', fraction (pd_ceiling_fraction d)),
      (''attempts_full'', JInt (pd_attempts_full d)), (''checkpoints_full'', JInt (pd_checkpoints_full d)),
      (''tier_cap'', JInt (pd_tier_cap d)), (''explore_every'', JInt (pd_explore_every d)),
      (''concurrency'', JInt (pd_concurrency d))]"

definition dials_digest :: "env \<Rightarrow> PolicyDials \<Rightarrow> string" where
  "dials_digest E d = digest_json E (dials_document d)"

definition crowd_source_document :: "CrowdSource \<Rightarrow> json" where
  "crowd_source_document s =
     JObj [(''structurally_trusted'', JBool (cw_structurally_trusted s)),
           (''synthetic'', JBool (cw_synthetic s)), (''control_digest'', JStr (cw_control_digest s))]"

definition fence_document :: "PriorFence \<Rightarrow> json" where
  "fence_document f =
     JObj [(''profile_digest'', JStr (pf_profile_digest f)), (''event_id'', JStr (pf_event_id f)),
           (''event_digest'', JStr (pf_event_digest f)), (''snapshot_digest'', JStr (pf_snapshot_digest f))]"

definition authority_document :: "OrderAuthority \<Rightarrow> json" where
  "authority_document a =
     JObj [(''snapshot_digest'', JStr (is_digest (oa_snapshot a))), (''fence'', fence_document (oa_fence a)),
           (''history_digests'', JArr (map (JStr \<circ> is_digest) (oa_history a))),
           (''effective_max_challenges'', JInt (oa_effective_max_challenges a)),
           (''crowd_source'', crowd_source_document (oa_crowd_source a))]"

definition admission_document :: "AdmissionFact \<Rightarrow> json" where
  "admission_document a =
     JObj [(''challenge_id'', typed_id_document (ad_challenge_id a)), (''admissible'', JBool (ad_admissible a)),
           (''reason'', JStr (ad_reason a)), (''evidence_digest'', JStr (ad_evidence_digest a)),
           (''safe_deadline'', opt_doc iso (ad_safe_deadline a))]"

definition attempt_document :: "AttemptFact \<Rightarrow> json" where
  "attempt_document a =
     JObj [(''challenge_id'', typed_id_document (at_challenge_id a)), (''attempt_id'', JStr (at_attempt_id a)),
           (''category'', JStr (at_category a)), (''seconds_ms'', JInt (at_seconds_ms a)),
           (''checkpoints'', JInt (at_checkpoints a)), (''disposition'', JStr (at_disposition a)),
           (''source_event_digest'', JStr (at_source_event_digest a)),
           (''checkpoint_event_digests'', JArr (map JStr (at_checkpoint_event_digests a)))]"

definition prior_crowd_document :: "PriorCrowd \<Rightarrow> json" where
  "prior_crowd_document p =
     JObj [(''challenge_id'', typed_id_document (pc_challenge_id p)), (''state'', JStr (pc_state p)),
           (''consecutive_passes'', JInt (pc_consecutive_passes p)),
           (''consecutive_failures'', JInt (pc_consecutive_failures p)),
           (''velocity'', opt_doc fraction (pc_velocity p)),
           (''last_qualified_tier'', opt_doc JInt (pc_last_qualified_tier p)),
           (''source_event_digest'', JStr (pc_source_event_digest p)),
           (''qualified_at'', opt_doc iso (pc_qualified_at p))]"

definition durable_document :: "DurableTier \<Rightarrow> json" where
  "durable_document d =
     JObj [(''challenge_id'', typed_id_document (du_challenge_id d)), (''tier'', JInt (du_tier d)),
           (''source_event_digest'', JStr (du_source_event_digest d))]"

definition grant_document :: "ActiveGrant \<Rightarrow> json" where
  "grant_document g =
     JObj [(''attempt_id'', JStr (ag_attempt_id g)), (''generation_id'', JStr (ag_generation_id g)),
           (''challenge_id'', typed_id_document (ag_challenge_id g)), (''tier'', JInt (ag_tier g)),
           (''budget_s'', JInt (ag_budget_s g)), (''deadline'', iso (ag_deadline g)),
           (''order_event_digest'', JStr (ag_order_event_digest g))]"

definition order_fence_document :: "OrderFence \<Rightarrow> json" where
  "order_fence_document f =
     JObj [(''publication_id'', JStr (fe_publication_id f)), (''decision_digest'', JStr (fe_decision_digest f)),
           (''boundary_event_digest'', JStr (fe_boundary_event_digest f))]"

definition run_document :: "OrderRunFacts \<Rightarrow> json" where
  "run_document r =
     JObj [(''boundary_id'', JStr (rf_boundary_id r)), (''boundary_at'', iso (rf_boundary_at r)),
           (''final_submission_cutoff'', iso (rf_final_submission_cutoff r)),
           (''window_seconds'', JInt (rf_window_seconds r)), (''next_generation'', JInt (rf_next_generation r)),
           (''window_digest'', JStr (rf_window_digest r)),
           (''generation_projection_digest'', JStr (rf_generation_projection_digest r)),
           (''intake_event_digest'', JStr (rf_intake_event_digest r)),
           (''submission_tail_seconds'', JInt (rf_submission_tail_seconds r)),
           (''boundary_clock_event_digest'', JStr (rf_boundary_clock_event_digest r)),
           (''leased'', JArr (map typed_id_document (rf_leased r))),
           (''solved'', JArr (map typed_id_document (rf_solved r))),
           (''active_grants'', JArr (map grant_document (rf_active_grants r))),
           (''attempts'', JArr (map attempt_document (rf_attempts r))),
           (''prior_crowd'', JArr (map prior_crowd_document (rf_prior_crowd r))),
           (''durable_tiers'', JArr (map durable_document (rf_durable_tiers r))),
           (''admission'', JArr (map admission_document (rf_admission r))),
           (''prior_order_fence'', order_fence_document (rf_prior_order_fence r)),
           (''boundary_fact_event_digest'', JStr (rf_boundary_fact_event_digest r)),
           (''final_chance_available'', JBool (rf_final_chance_available r))]"

definition input_document :: "OrderInput \<Rightarrow> payload" where
  "input_document i =
     [(''schema_version'', JInt 1), (''authority'', authority_document (oi_authority i)),
      (''run'', run_document (oi_run i)), (''dials'', JObj (dials_document (oi_dials i)))]"

definition input_digest :: "env \<Rightarrow> OrderInput \<Rightarrow> string" where
  "input_digest E i = digest_json E (input_document i)"

definition boundary_source_document :: "OrderRunFacts \<Rightarrow> payload" where
  "boundary_source_document r =
     [(''schema_version'', JInt 1), (''record'', JStr ''boundary-facts''),
      (''boundary_id'', JStr (rf_boundary_id r)), (''boundary_at'', iso (rf_boundary_at r)),
      (''final_submission_cutoff'', iso (rf_final_submission_cutoff r)),
      (''window_seconds'', JInt (rf_window_seconds r)), (''next_generation'', JInt (rf_next_generation r)),
      (''window_digest'', JStr (rf_window_digest r)),
      (''generation_projection_digest'', JStr (rf_generation_projection_digest r)),
      (''intake_event_digest'', JStr (rf_intake_event_digest r)),
      (''submission_tail_seconds'', JInt (rf_submission_tail_seconds r)),
      (''boundary_clock_event_digest'', JStr (rf_boundary_clock_event_digest r)),
      (''leased'', JArr (map typed_id_document (rf_leased r))),
      (''solved'', JArr (map typed_id_document (rf_solved r))),
      (''prior_order_fence'', order_fence_document (rf_prior_order_fence r)),
      (''final_chance_available'', JBool (rf_final_chance_available r))]"

definition crowd_document :: "CrowdDecision \<Rightarrow> json" where
  "crowd_document c =
     JObj [(''state'', JStr (cd_state c)), (''reason'', JStr (cd_reason c)),
           (''velocity'', opt_doc fraction (cd_velocity c)), (''percentile'', fraction (cd_percentile c)),
           (''reliability'', fraction (cd_reliability c)), (''activity_digest'', JStr (cd_activity_digest c))]"

definition components_document :: "Components \<Rightarrow> json" where
  "components_document c =
     JObj [(''crowd'', fraction (co_crowd c)), (''value'', fraction (co_value c)), (''lease'', fraction (co_lease c)),
           (''progress'', fraction (co_progress c)), (''category'', fraction (co_category c)),
           (''spend'', fraction (co_spend c))]"

fun tie_break_document :: "int \<times> TypedId \<Rightarrow> json" where
  "tie_break_document (p, TypedInt n) = JArr [JInt p, JInt 0, JInt n]"
| "tie_break_document (p, TypedStr s) = JArr [JInt p, JInt 1, JStr s]"

definition row_document :: "OrderRow \<Rightarrow> json" where
  "row_document r =
     JObj [(''challenge_id'', typed_id_document (or_challenge_id r)), (''name'', JStr (or_name r)),
           (''category'', JStr (or_category r)), (''revision_digest'', JStr (or_revision_digest r)),
           (''rank'', JInt (or_rank r)), (''order_value'', fraction (or_order_value r)),
           (''components'', components_document (or_components r)), (''crowd'', crowd_document (or_crowd r)),
           (''base_tier'', JInt (or_base_tier r)), (''final_tier'', JInt (or_final_tier r)),
           (''budget_s'', JInt (or_budget_s r)), (''committed'', JBool (or_committed r)),
           (''demoted'', JBool (or_demoted r)), (''deferred_reason'', JStr (or_deferred_reason r)),
           (''deferred_evidence_digest'', JStr (or_deferred_evidence_digest r)),
           (''tie_break'', tie_break_document (or_tie_break r))]"

definition decision_document :: "OrderDecision \<Rightarrow> payload" where
  "decision_document d =
     [(''schema_version'', JInt 1), (''boundary_id'', JStr (od_boundary_id d)),
      (''boundary_at'', iso (od_boundary_at d)), (''snapshot_digest'', JStr (od_snapshot_digest d)),
      (''intake_fence'', fence_document (od_intake_fence d)), (''policy_digest'', JStr (od_policy_digest d)),
      (''input_digest'', JStr (od_input_digest d)), (''input_document'', JObj (od_input_document d)),
      (''order_value_basis'', JStr (od_order_value_basis d)), (''fallback_reason'', JStr (od_fallback_reason d)),
      (''rows'', JArr (map row_document (od_rows d))),
      (''working_set'', JArr (map typed_id_document (od_working_set d))),
      (''active_grants'', JArr (map grant_document (od_active_grants d))),
      (''grant'', opt_doc grant_document (od_grant d)), (''grant_exploring'', JBool (od_grant_exploring d)),
      (''interval'', JStr (od_interval d)), (''final_interval_seconds'', JInt (od_final_interval_seconds d)),
      (''history_digests'', JArr (map JStr (od_history_digests d)))]"

definition decision_digest :: "env \<Rightarrow> OrderDecision \<Rightarrow> string" where
  "decision_digest E d = digest_json E (decision_document d)"

end
