(* ===== verification/Order_Policy.thy ===== *)
theory Order_Policy
  imports Order_Documents "HOL-Library.Product_Lexorder" "HOL-Library.Multiset"
begin

text \<open>
  \<open>solver/order_policy.py\<close>: the pure Order decision over one Intake boundary.  Every clock is a UTC
  instant, so the refusal of a clock without a timezone has no counterpart here.  The \<open>_key\<close> of an
  identity is the identity itself, and the position, kind and value of the tie-break are a position
  and an identity compared lexicographically.  Every dict that the code indexes with \<open>d[key]\<close> is
  looked up with \<open>need ... KeyError\<close>, so that a missing key would be visible as an exception.
\<close>

section \<open>Python's builtins\<close>

text \<open>\<open>int(fraction)\<close> truncates towards zero; \<open>max(xs, key=f)\<close> and \<open>min(xs, key=f)\<close> return the
  first extremal element.\<close>

definition trunc_rat :: "rat \<Rightarrow> int" where
  "trunc_rat r = (if r < 0 then - \<lfloor>- r\<rfloor> else \<lfloor>r\<rfloor>)"

fun min_by :: "('a \<Rightarrow> 'b :: linorder) \<Rightarrow> 'a list \<Rightarrow> 'a option" where
  "min_by f [] = None"
| "min_by f (x # xs) = Some (foldl (\<lambda>a b. if f b < f a then b else a) x xs)"

fun max_by :: "('a \<Rightarrow> 'b :: linorder) \<Rightarrow> 'a list \<Rightarrow> 'a option" where
  "max_by f [] = None"
| "max_by f (x # xs) = Some (foldl (\<lambda>a b. if f a < f b then b else a) x xs)"

text \<open>Equality of JSON values as Python compares them: a bool is an int, a float with an integral
  value equals the int, and the order of keys does not matter.\<close>

primrec py_norm :: "json \<Rightarrow> json" where
  "py_norm JNull = JNull"
| "py_norm (JBool b) = JInt (of_bool b)"
| "py_norm (JInt n) = JInt n"
| "py_norm (JFloat r) = (if r = of_int \<lfloor>r\<rfloor> then JInt \<lfloor>r\<rfloor> else JFloat r)"
| "py_norm (JStr s) = JStr s"
| "py_norm (JArr xs) = JArr (map py_norm xs)"
| "py_norm (JObj kvs) = JObj (sort_key fst (map (map_prod id py_norm) kvs))"

section \<open>Population and value\<close>

definition undeployable :: "ChallengeSnapshot \<Rightarrow> bool" where
  "undeployable c =
     (pv_state (cs_shared c) = ''value'' \<and> pv_value (cs_shared c) = JBool True
      \<and> cs_challenge_type c \<notin> {''standard'', ''dynamic'', ''''})"

definition population :: "ChallengeSnapshot list \<Rightarrow> TypedId list \<Rightarrow> ChallengeSnapshot list" where
  "population challenges solved =
     filter (\<lambda>c. cs_challenge_id c \<notin> set solved
       \<and> \<not> (vf_outcome (cs_solved c) = ''answered'' \<and> vf_value (cs_solved c) = JBool True)
       \<and> \<not> undeployable c) challenges"

definition unsettled_value :: "ChallengeSnapshot \<Rightarrow> bool" where
  "unsettled_value c = (settled_count (cs_value c) = None)"

definition value_of :: "ChallengeSnapshot \<Rightarrow> int" where
  "value_of c = (case settled_count (cs_value c) of None \<Rightarrow> 0 | Some n \<Rightarrow> n)"

definition value_basis :: "ChallengeSnapshot list \<Rightarrow> string \<times> string \<times> (TypedId \<times> rat) list" where
  "value_basis pop =
     (case min_by cs_challenge_id (filter unsettled_value pop) of
        Some first \<Rightarrow>
          (''unit-fallback'',
           ''challenge-value-unsettled:'' @ typed_id_kind (cs_challenge_id first) @ '':''
             @ typed_id_text (cs_challenge_id first),
           dict_of (map (\<lambda>c. (cs_challenge_id c, 1)) pop))
      | None \<Rightarrow>
          let maximum = (if pop = [] then 0 else Max (set (map value_of pop)))
          in (''coherent-challenge-values'', '''',
              dict_of (map (\<lambda>c. (cs_challenge_id c,
                if maximum \<noteq> 0 then Fract (value_of c) maximum else 0)) pop)))"

section \<open>The crowd\<close>

definition history_step :: "PolicyDials \<Rightarrow> IntakeSnapshot \<Rightarrow> IntakeSnapshot list \<Rightarrow> IntakeSnapshot \<Rightarrow> IntakeSnapshot option" where
  "history_step dials current candidates before =
     (let lower = is_observed_at current - pd_crowd_max_age_seconds dials * 1000000;
          upper = is_observed_at before - pd_sample_min_seconds dials * 1000000
      in max_by (\<lambda>s. (is_observed_at s, is_digest s))
           (filter (\<lambda>s. lower \<le> is_observed_at s \<and> is_observed_at s \<le> upper) candidates))"

definition history_candidates :: "OrderAuthority \<Rightarrow> (string \<times> IntakeSnapshot) list" where
  "history_candidates a =
     (let current = oa_snapshot a
      in dict_set (is_digest current) current
           (dict_of (map (\<lambda>s. (is_digest s, s))
             (filter (\<lambda>s. is_observed_at s \<le> is_observed_at current) (oa_history a)))))"

definition history :: "OrderAuthority \<Rightarrow> PolicyDials \<Rightarrow> IntakeSnapshot list" where
  "history a dials =
     (let current = oa_snapshot a; candidates = map snd (history_candidates a)
      in case history_step dials current candidates current of
           None \<Rightarrow> [current]
         | Some second \<Rightarrow>
             (case history_step dials current candidates second of
                None \<Rightarrow> [current, second]
              | Some third \<Rightarrow> [current, second, third]))"

definition scoreboard_rows :: "IntakeSnapshot \<Rightarrow> (json \<times> json \<times> json) list" where
  "scoreboard_rows s =
     map (\<lambda>item. (py_norm (pget item ''rank''), py_norm (pget item ''name''), py_norm (pget item ''score'')))
       (filter (\<lambda>item. pget item ''source'' = JStr ''scoreboard''
          \<and> pget item ''observed_at'' = iso (is_observed_at s)) (is_scoreboard s))"

definition scoreboard_activity :: "IntakeSnapshot \<Rightarrow> IntakeSnapshot \<Rightarrow> bool" where
  "scoreboard_activity earlier later =
     (let before = scoreboard_rows earlier; after = scoreboard_rows later
      in before \<noteq> [] \<and> after \<noteq> [] \<and> before \<noteq> after)"

definition challenges_by_id :: "IntakeSnapshot \<Rightarrow> (TypedId \<times> ChallengeSnapshot) list" where
  "challenges_by_id s = dict_of (map (\<lambda>c. (cs_challenge_id c, c)) (is_challenges s))"

definition solves_at :: "IntakeSnapshot \<Rightarrow> TypedId \<Rightarrow> int option" where
  "solves_at s k = Option.bind (map_of (challenges_by_id s) k) (\<lambda>c. settled_count (cs_solves c))"

definition shared_keys :: "IntakeSnapshot \<Rightarrow> IntakeSnapshot \<Rightarrow> ChallengeSnapshot list \<Rightarrow> TypedId list" where
  "shared_keys earlier later pop =
     filter (\<lambda>k. map_of (challenges_by_id earlier) k \<noteq> None \<and> map_of (challenges_by_id later) k \<noteq> None)
       (remdups (map cs_challenge_id pop))"

definition solve_delta :: "IntakeSnapshot \<Rightarrow> IntakeSnapshot \<Rightarrow> TypedId \<Rightarrow> int" where
  "solve_delta earlier later k =
     (case (solves_at earlier k, solves_at later k) of (Some a, Some b) \<Rightarrow> max 0 (b - a) | _ \<Rightarrow> 0)"

definition discriminates :: "PolicyDials \<Rightarrow> int list \<Rightarrow> rat list \<Rightarrow> bool" where
  "discriminates dials deltas velocities =
     (sum_list deltas \<ge> pd_crowd_min_new_solves dials
      \<and> int (length (filter (\<lambda>d. d > 0) deltas)) \<ge> pd_crowd_min_moving_challenges dials
      \<and> int (length (remdups velocities)) \<ge> pd_crowd_min_distinct_velocities dials
      \<and> velocities \<noteq> []
      \<and> Max (set (map (\<lambda>v. int (count_list velocities v)) velocities)) * pd_crowd_max_tie_denominator dials
          < int (length velocities) * pd_crowd_max_tie_numerator dials)"

definition transition :: "env \<Rightarrow> IntakeSnapshot \<Rightarrow> IntakeSnapshot \<Rightarrow> ChallengeSnapshot list \<Rightarrow> PolicyDials \<Rightarrow> OrderTransition" where
  "transition E earlier later pop dials =
     (let elapsed = is_observed_at later - is_observed_at earlier; keys = shared_keys earlier later pop in
      if list_ex (\<lambda>k. solves_at earlier k = None \<or> solves_at later k = None) keys
      then \<lparr>tr_passed = False, tr_reason = ''solve-values-unsettled'', tr_velocities = [], tr_activity_digest = ''''\<rparr>
      else
        let velocities = (if elapsed > 0
              then map (\<lambda>k. (k, Fract (solve_delta earlier later k * 1000000) elapsed)) keys else []);
            separated = (pd_sample_min_seconds dials * 1000000 \<le> elapsed
              \<and> elapsed \<le> pd_crowd_max_age_seconds dials * 1000000);
            activity = scoreboard_activity earlier later;
            discrimination = discriminates dials (map (solve_delta earlier later) keys) (map snd velocities)
        in \<lparr>tr_passed = (separated \<and> activity \<and> discrimination),
            tr_reason =
              (if separated \<and> activity \<and> discrimination then ''qualified-transition''
               else if \<not> separated then ''sample-separation-invalid''
               else if \<not> activity then ''activity-unproved'' else ''discrimination-unproved''),
            tr_velocities = velocities,
            tr_activity_digest =
              (if activity
               then digest_json E
                 [(''earlier_at'', iso (is_observed_at earlier)), (''later_at'', iso (is_observed_at later)),
                  (''earlier_scoreboard'', JArr (map JObj (is_scoreboard earlier))),
                  (''later_scoreboard'', JArr (map JObj (is_scoreboard later)))]
               else '''')\<rparr>)"

fun percentile_loop :: "rat list \<Rightarrow> nat \<Rightarrow> rat list \<Rightarrow> (rat \<times> rat) list" where
  "percentile_loop all cumulative [] = []"
| "percentile_loop all cumulative (v # vs) =
     (let equal = count_list all v
      in (v, Fract (2 * int cumulative + int equal - 1) (2 * (int (length all) - 1)))
         # percentile_loop all (cumulative + equal) vs)"

definition percentiles :: "(TypedId \<times> rat) list \<Rightarrow> (TypedId \<times> rat) list" where
  "percentiles values =
     (if length values = 1 then map (\<lambda>(k, v). (k, 1 / 2)) values
      else let percentile = percentile_loop (map snd values) 0 (sort (remdups (map snd values)))
           in map (\<lambda>(k, v). (k, case map_of percentile v of None \<Rightarrow> 0 | Some p \<Rightarrow> p)) values)"

definition unavailable :: "string \<Rightarrow> CrowdDecision" where
  "unavailable reason =
     \<lparr>cd_state = ''unavailable'', cd_reason = reason, cd_velocity = None, cd_percentile = 1 / 2,
      cd_reliability = 0, cd_activity_digest = ''''\<rparr>"

text \<open>One pass of the loop over the population: the state, the reason, and the velocity it keeps.\<close>

definition crowd_state :: "OrderRunFacts \<Rightarrow> PolicyDials \<Rightarrow> OrderTransition option \<Rightarrow> OrderTransition option
    \<Rightarrow> PriorCrowd option \<Rightarrow> TypedId \<Rightarrow> string \<times> string \<times> rat option" where
  "crowd_state run dials newest older previous key =
     (let expired = (case previous of None \<Rightarrow> False
            | Some p \<Rightarrow> pc_last_qualified_tier p \<noteq> None
                \<and> (case pc_qualified_at p of None \<Rightarrow> False
                   | Some q \<Rightarrow> rf_boundary_at run - q > pd_crowd_max_age_seconds dials * 1000000)) in
      if expired then (''unavailable'', ''last-qualified-expired'', None)
      else
        let velocity_in = (\<lambda>t. Option.bind t (\<lambda>x. map_of (tr_velocities x) key));
            passes = (\<lambda>t. case t of None \<Rightarrow> False
              | Some x \<Rightarrow> tr_passed x \<and> map_of (tr_velocities x) key \<noteq> None);
            current_pass = passes newest;
            older_pass = passes older;
            was_qualified = (case previous of None \<Rightarrow> False | Some p \<Rightarrow> pc_state p = ''qualified'');
            had_pass = (case previous of None \<Rightarrow> False | Some p \<Rightarrow> pc_consecutive_passes p \<ge> 1);
            unfailed = (case previous of None \<Rightarrow> False | Some p \<Rightarrow> pc_consecutive_failures p < 1);
            (state, reason) =
              (if current_pass \<and> (older_pass \<or> was_qualified \<or> had_pass)
               then (''qualified'', ''two-qualifying-transitions'')
               else if was_qualified \<and> \<not> current_pass \<and> unfailed
               then (''qualified'', ''last-qualified-held'')
               else (''provisional'',
                 case newest of
                   Some x \<Rightarrow> if \<not> tr_passed x then tr_reason x
                     else if current_pass then ''one-qualifying-transition'' else ''sample-unavailable''
                 | None \<Rightarrow> ''sample-unavailable''));
            held = (reason = ''last-qualified-held'' \<and> state = ''qualified'');
            before = Option.bind previous pc_velocity
        in (state, reason,
            if held \<and> before \<noteq> None then before
            else if velocity_in newest \<noteq> None then velocity_in newest
            else before))"

definition crowd_decision :: "string \<times> string \<times> rat option \<Rightarrow> (TypedId \<times> rat) list \<Rightarrow> OrderTransition option
    \<Rightarrow> TypedId \<Rightarrow> CrowdDecision" where
  "crowd_decision st pct newest key =
     (case st of (state, reason, velocity) \<Rightarrow>
        \<lparr>cd_state = state, cd_reason = reason, cd_velocity = velocity,
         cd_percentile = (case map_of pct key of None \<Rightarrow> 1 / 2 | Some p \<Rightarrow> p),
         cd_reliability = (if state = ''unavailable'' then 0 else if state = ''qualified'' then 1 else 1 / 4),
         cd_activity_digest = (case newest of None \<Rightarrow> '''' | Some x \<Rightarrow> tr_activity_digest x)\<rparr>)"

definition crowd :: "env \<Rightarrow> ChallengeSnapshot list \<Rightarrow> IntakeSnapshot list \<Rightarrow> CrowdSource \<Rightarrow> OrderRunFacts \<Rightarrow> PolicyDials
    \<Rightarrow> (TypedId \<times> CrowdDecision) list" where
  "crowd E pop hist source run dials =
     (let prior = dict_of (map (\<lambda>p. (pc_challenge_id p, p)) (rf_prior_crowd run)) in
      if cw_synthetic source \<or> \<not> cw_structurally_trusted source
      then dict_of (map (\<lambda>c. (cs_challenge_id c,
             unavailable (if cw_synthetic source then ''synthetic-source'' else ''source-untrusted''))) pop)
      else if rf_boundary_at run - is_observed_at (hd hist) > pd_crowd_max_age_seconds dials * 1000000
      then dict_of (map (\<lambda>c. (cs_challenge_id c, unavailable ''observation-expired'')) pop)
      else
        let transitions = map (\<lambda>(later, earlier). transition E earlier later pop dials) (zip hist (tl hist));
            newest = (case transitions of [] \<Rightarrow> None | t # _ \<Rightarrow> Some t);
            older = (case transitions of _ # t # _ \<Rightarrow> Some t | _ \<Rightarrow> None);
            states = dict_of (map (\<lambda>c. (cs_challenge_id c,
              crowd_state run dials newest older (map_of prior (cs_challenge_id c)) (cs_challenge_id c))) pop);
            velocities = List.map_filter (\<lambda>(k, _, _, v). map_option (Pair k) v) states;
            pct = percentiles velocities
        in map (\<lambda>(k, st). (k, crowd_decision st pct newest k)) states)"

section \<open>Tiers, components and budgets\<close>

definition stated_tier :: "string \<Rightarrow> int option" where
  "stated_tier statement =
     (case states_search statement of None \<Rightarrow> None
      | Some w \<Rightarrow> map_of STATED (map lower_char (join_space (words w))))"

definition base_tier :: "ChallengeSnapshot \<Rightarrow> CrowdDecision \<Rightarrow> PriorCrowd option \<Rightarrow> DurableTier option \<Rightarrow> int" where
  "base_tier c cd prior durable =
     (case (if cd_state cd = ''qualified'' \<and> cd_reason cd \<noteq> ''last-qualified-held'' then cd_velocity cd else None) of
        Some v \<Rightarrow> if v = 0 then 4 else max 1 (4 - \<lfloor>4 * cd_percentile cd\<rfloor>)
      | None \<Rightarrow>
          (case Option.bind prior pc_last_qualified_tier of
             Some t \<Rightarrow> t
           | None \<Rightarrow>
               (case stated_tier (cs_statement c) of
                  Some t \<Rightarrow> t
                | None \<Rightarrow>
                    (case durable of
                       Some d \<Rightarrow> if 1 \<le> du_tier d \<and> du_tier d \<le> 4 then du_tier d else FLOOR
                     | None \<Rightarrow> FLOOR))))"

definition crowd_component :: "CrowdDecision \<Rightarrow> rat" where
  "crowd_component cd = 1 / 2 + cd_reliability cd * (cd_percentile cd - 1 / 2)"

definition attempts_of :: "AttemptFact list \<Rightarrow> TypedId \<Rightarrow> AttemptFact list" where
  "attempts_of attempts key = filter (\<lambda>a. at_challenge_id a = key) attempts"

definition total_ms :: "AttemptFact list \<Rightarrow> int" where
  "total_ms attempts = sum_list (map at_seconds_ms attempts)"

definition total_checkpoints :: "AttemptFact list \<Rightarrow> int" where
  "total_checkpoints attempts = sum_list (map at_checkpoints attempts)"

definition in_category :: "AttemptFact list \<Rightarrow> string \<Rightarrow> AttemptFact list" where
  "in_category attempts cat = filter (\<lambda>a. at_category a = cat) attempts"

definition category_rate :: "AttemptFact list \<Rightarrow> rat" where
  "category_rate items =
     Fract (int (length (filter (\<lambda>a. at_disposition a = ''complete'') items)) * 4 + total_checkpoints items)
       (4 * max 1 (total_ms items))"

definition category_rates :: "AttemptFact list \<Rightarrow> (string \<times> rat) list" where
  "category_rates attempts =
     map (\<lambda>cat. (cat, category_rate (in_category attempts cat)))
       (filter (\<lambda>cat. 3 \<le> length (in_category attempts cat) \<and> 1200000 \<le> total_ms (in_category attempts cat))
          (remdups (map at_category attempts)))"

definition category_components :: "ChallengeSnapshot list \<Rightarrow> AttemptFact list \<Rightarrow> (string \<times> rat) list \<times> string list" where
  "category_components pop attempts =
     (let rates = category_rates attempts in
      if rates = [] then (dict_of (map (\<lambda>c. (cs_category c, 1 / 2)) pop), [])
      else
        let top = Max (set (map snd rates));
            components = dict_of (map (\<lambda>c. (cs_category c,
              case map_of rates (cs_category c) of None \<Rightarrow> 1 / 2
              | Some rate \<Rightarrow> if top \<noteq> 0 then rate / top else 1 / 2)) pop);
            ordered = sort (map snd rates);
            weak = (if 4 \<le> length rates
              then map fst (filter (\<lambda>(cat, rate). rate \<le> ordered ! ((length ordered - 1) div 4)) rates) else [])
        in (components, weak))"

definition ceiling_ms :: "int \<Rightarrow> PolicyDials \<Rightarrow> int" where
  "ceiling_ms window dials = max 1 (trunc_rat (pd_ceiling_fraction dials * of_int window * 1000))"

definition spend_ratio :: "AttemptFact list \<Rightarrow> int \<Rightarrow> PolicyDials \<Rightarrow> rat" where
  "spend_ratio attempts window dials =
     max (Fract (total_ms attempts) (ceiling_ms window dials)) (Fract (int (length attempts)) (pd_attempts_full dials))"

definition spend :: "AttemptFact list \<Rightarrow> int \<Rightarrow> PolicyDials \<Rightarrow> rat" where
  "spend attempts window dials = min 1 (spend_ratio attempts window dials)"

definition demoted :: "AttemptFact list \<Rightarrow> int \<Rightarrow> PolicyDials \<Rightarrow> bool" where
  "demoted attempts window dials =
     (list_ex (\<lambda>a. at_disposition a = ''interrupt'') attempts \<or> spend_ratio attempts window dials \<ge> 1)"

definition length_of_tier :: "int \<Rightarrow> PolicyDials \<Rightarrow> int" where
  "length_of_tier tier dials =
     max (pd_floor_seconds dials)
       (trunc_rat (of_int (pd_knee_seconds dials) * (1 + of_int (tier - FLOOR) * pd_tier_step dials)))"

definition position_of :: "ChallengeSnapshot \<Rightarrow> int" where
  "position_of c =
     (case (if pv_state (cs_position c) = ''value'' then strict_int (pv_value (cs_position c)) else None) of
        Some n \<Rightarrow> n | None \<Rightarrow> 2 ^ 63 - 1)"

definition attempts_affordable :: "int \<Rightarrow> int list \<Rightarrow> int \<Rightarrow> int" where
  "attempts_affordable seconds lengths floor_s =
     (if seconds < floor_s \<or> lengths = [] then 0
      else max 1 \<lfloor>of_int seconds / Fract (sum_list lengths) (int (length lengths))\<rfloor>)"

section \<open>Validation\<close>

definition validate_facts :: "OrderAuthority \<Rightarrow> OrderRunFacts \<Rightarrow> PolicyDials \<Rightarrow> unit res" where
  "validate_facts a run dials =
     bind_res (guard_res (distinct (map cs_challenge_id (is_challenges (oa_snapshot a)))) ValueError) (\<lambda>_.
     bind_res (guard_res (list_all (\<lambda>s. is_profile_digest s = is_profile_digest (oa_snapshot a)) (oa_history a)) ValueError) (\<lambda>_.
     bind_res (guard_res (rf_boundary_at run \<le> rf_final_submission_cutoff run \<and> 0 \<le> rf_window_seconds run
       \<and> 1 \<le> rf_next_generation run) ValueError) (\<lambda>_.
     bind_res (guard_res (0 < pd_floor_seconds dials \<and> 0 < pd_knee_seconds dials \<and> 0 < pd_attempts_full dials
       \<and> 0 < pd_checkpoints_full dials \<and> 0 < pd_explore_every dials \<and> 0 < pd_concurrency dials) ValueError) (\<lambda>_.
     guard_res (distinct (map (\<lambda>x. (at_challenge_id x, at_attempt_id x)) (rf_attempts run))
       \<and> distinct (map pc_challenge_id (rf_prior_crowd run))
       \<and> distinct (map du_challenge_id (rf_durable_tiers run))
       \<and> distinct (map ad_challenge_id (rf_admission run))) ValueError))))"

definition check_authority :: "OrderAuthority \<Rightarrow> OrderRunFacts \<Rightarrow> unit res" where
  "check_authority a run =
     bind_res (guard_res (0 \<le> oa_effective_max_challenges a \<and> oa_effective_max_challenges a \<le> 100000) ValueError) (\<lambda>_.
     bind_res (guard_res (pf_snapshot_digest (oa_fence a) = is_digest (oa_snapshot a)) ValueError) (\<lambda>_.
     bind_res (guard_res (pf_profile_digest (oa_fence a) = is_profile_digest (oa_snapshot a)) ValueError) (\<lambda>_.
     bind_res (guard_res (int (length (is_challenges (oa_snapshot a))) \<le> oa_effective_max_challenges a) ValueError) (\<lambda>_.
     guard_res (is_observed_at (oa_snapshot a) \<le> rf_boundary_at run) ValueError))))"

section \<open>One row\<close>

text \<open>What the loop over the population reads besides the Challenge.\<close>

record row_facts =
  rw_run :: OrderRunFacts
  rw_dials :: PolicyDials
  rw_values :: "(TypedId \<times> rat) list"
  rw_crowd :: "(TypedId \<times> CrowdDecision) list"
  rw_categories :: "(string \<times> rat) list"
  rw_weak :: "string list"

definition admission_of :: "OrderRunFacts \<Rightarrow> TypedId \<Rightarrow> AdmissionFact option" where
  "admission_of run key = map_of (dict_of (map (\<lambda>a. (ad_challenge_id a, a)) (rf_admission run))) key"

definition deferred_reason :: "OrderRunFacts \<Rightarrow> PolicyDials \<Rightarrow> TypedId \<Rightarrow> string" where
  "deferred_reason run dials key =
     (let found = admission_of run key;
          short = (case Option.bind found ad_safe_deadline of None \<Rightarrow> False
            | Some t \<Rightarrow> t - rf_boundary_at run < pd_floor_seconds dials * 1000000)
      in if key \<in> ag_challenge_id ` set (rf_active_grants run) then ''active-grant''
         else case found of
           Some a \<Rightarrow> if \<not> ad_admissible a then ad_reason a
             else if short then ''safe-deadline-below-floor'' else ''''
         | None \<Rightarrow> '''')"

definition row_components :: "row_facts \<Rightarrow> ChallengeSnapshot \<Rightarrow> CrowdDecision \<Rightarrow> rat \<Rightarrow> Components" where
  "row_components fs c cd v =
     (let run = rw_run fs; dials = rw_dials fs; key = cs_challenge_id c; spent = attempts_of (rf_attempts run) key
      in \<lparr>co_crowd = crowd_component cd, co_value = v,
          co_lease = of_bool (key \<in> set (rf_leased run)),
          co_progress = min 1 (Fract (total_checkpoints spent) (pd_checkpoints_full dials)),
          co_category = (case map_of (rw_categories fs) (cs_category c) of None \<Rightarrow> 1 / 2 | Some r \<Rightarrow> r),
          co_spend = spend spent (rf_window_seconds run) dials\<rparr>)"

definition order_value :: "PolicyDials \<Rightarrow> Components \<Rightarrow> rat" where
  "order_value dials co =
     pd_w_crowd dials * co_crowd co + pd_w_value dials * co_value co + pd_w_lease dials * co_lease co
     + pd_w_progress dials * co_progress co + pd_w_category dials * co_category co - pd_w_spend dials * co_spend co"

definition final_tier :: "row_facts \<Rightarrow> ChallengeSnapshot \<Rightarrow> int \<Rightarrow> int" where
  "final_tier fs c base =
     min 4 (max 1 (base + of_bool (cs_category c \<in> set (rw_weak fs))
       + min (pd_tier_cap (rw_dials fs))
           (total_checkpoints (attempts_of (rf_attempts (rw_run fs)) (cs_challenge_id c)))))"

definition build_row :: "row_facts \<Rightarrow> ChallengeSnapshot \<Rightarrow> CrowdDecision \<Rightarrow> rat \<Rightarrow> OrderRow" where
  "build_row fs c cd v =
     (let run = rw_run fs; dials = rw_dials fs; key = cs_challenge_id c;
          prior = map_of (dict_of (map (\<lambda>p. (pc_challenge_id p, p)) (rf_prior_crowd run))) key;
          durable = map_of (dict_of (map (\<lambda>d. (du_challenge_id d, d)) (rf_durable_tiers run))) key;
          base = base_tier c cd prior durable;
          tier = final_tier fs c base;
          components = row_components fs c cd v;
          deferred = deferred_reason run dials key
      in \<lparr>or_challenge_id = key, or_name = cs_name c, or_category = cs_category c,
          or_revision_digest = cs_revision_digest c, or_rank = 0,
          or_order_value = order_value dials components, or_components = components, or_crowd = cd,
          or_base_tier = base, or_final_tier = tier, or_budget_s = length_of_tier tier dials,
          or_committed = False,
          or_demoted = demoted (attempts_of (rf_attempts run) key) (rf_window_seconds run) dials,
          or_deferred_reason = deferred,
          or_deferred_evidence_digest =
            (case admission_of run key of Some a \<Rightarrow> if deferred \<noteq> '''' then ad_evidence_digest a else ''''
             | None \<Rightarrow> ''''),
          or_tie_break = (position_of c, key)\<rparr>)"

definition provisional_row :: "row_facts \<Rightarrow> ChallengeSnapshot \<Rightarrow> OrderRow res" where
  "provisional_row fs c =
     bind_res (need (map_of (rw_crowd fs) (cs_challenge_id c)) KeyError) (\<lambda>cd.
     bind_res (need (map_of (rw_values fs) (cs_challenge_id c)) KeyError) (\<lambda>v.
     Inr (build_row fs c cd v)))"

section \<open>The decision\<close>

definition sort_row :: "OrderRow \<Rightarrow> bool \<times> rat \<times> int \<times> TypedId" where
  "sort_row r = (or_demoted r, - or_order_value r, or_tie_break r)"

definition not_deferred :: "OrderRow list \<Rightarrow> OrderRow list" where
  "not_deferred rows = filter (\<lambda>r. or_deferred_reason r = '''') rows"

definition affordable :: "int \<Rightarrow> PolicyDials \<Rightarrow> OrderRow list \<Rightarrow> nat" where
  "affordable remaining dials rows =
     nat (attempts_affordable remaining (map or_budget_s (not_deferred rows)) (pd_floor_seconds dials))"

definition rank_rows :: "int \<Rightarrow> PolicyDials \<Rightarrow> OrderRow list \<Rightarrow> OrderRow list" where
  "rank_rows remaining dials rows =
     (let committed = or_challenge_id ` set (take (affordable remaining dials rows) (not_deferred rows))
      in map (\<lambda>(i, r). r\<lparr>or_rank := int i, or_committed := (or_challenge_id r \<in> committed)\<rparr>)
           (zip [1..<Suc (length rows)] rows))"

definition interval_of :: "int \<Rightarrow> PolicyDials \<Rightarrow> string" where
  "interval_of remaining dials =
     (if remaining \<le> 0 then ''closed''
      else if remaining < pd_floor_seconds dials then ''final-interval'' else ''ordinary'')"

definition grantable :: "bool \<Rightarrow> OrderRow list \<Rightarrow> OrderRow list" where
  "grantable final_chance rows = filter (\<lambda>r. (or_committed r \<or> final_chance) \<and> or_deferred_reason r = '''') rows"

definition explore_turn :: "OrderRunFacts \<Rightarrow> PolicyDials \<Rightarrow> bool" where
  "explore_turn run dials = ((rf_next_generation run - 1) mod pd_explore_every dials = pd_explore_every dials - 1)"

definition explore_key :: "PolicyDials \<Rightarrow> OrderRow \<Rightarrow> rat \<times> int \<times> TypedId" where
  "explore_key dials r = (- (or_order_value r - pd_w_crowd dials * co_crowd (or_components r)), or_tie_break r)"

definition choose_row :: "OrderRunFacts \<Rightarrow> PolicyDials \<Rightarrow> string \<Rightarrow> OrderRow list \<Rightarrow> OrderRow option \<times> bool" where
  "choose_row run dials interval admissible =
     (let first = (case admissible of [] \<Rightarrow> None | r # _ \<Rightarrow> Some r);
          uncertain = filter (\<lambda>r. cd_state (or_crowd r) \<noteq> ''qualified'') admissible
      in if interval = ''ordinary'' \<and> admissible \<noteq> [] \<and> explore_turn run dials \<and> uncertain \<noteq> []
         then (min_by (explore_key dials) uncertain, True)
         else (first, False))"

definition attempt_name :: "OrderRunFacts \<Rightarrow> TypedId \<Rightarrow> string" where
  "attempt_name run key =
     (case key of TypedInt _ \<Rightarrow> ''i'' | TypedStr _ \<Rightarrow> ''s'') @ '':'' @ typed_id_text key @ ''-''
     @ show_int (1 + int (length (filter (\<lambda>a. at_challenge_id a = key) (rf_attempts run))))"

definition make_grant :: "OrderRunFacts \<Rightarrow> PolicyDials \<Rightarrow> int \<Rightarrow> bool \<Rightarrow> OrderRow \<Rightarrow> ActiveGrant option" where
  "make_grant run dials remaining final_chance chosen =
     (let key = or_challenge_id chosen;
          safe = (case Option.bind (admission_of run key) ad_safe_deadline of
            Some t \<Rightarrow> trunc_seconds (t - rf_boundary_at run) | None \<Rightarrow> remaining);
          budget = min (or_budget_s chosen) (min remaining safe)
      in if budget \<ge> pd_floor_seconds dials \<or> final_chance \<and> budget > 0
         then Some \<lparr>ag_attempt_id = attempt_name run key,
                    ag_generation_id = ''generation-'' @ pad6 (show_int (rf_next_generation run)),
                    ag_challenge_id = key, ag_tier = or_final_tier chosen, ag_budget_s = budget,
                    ag_deadline = rf_boundary_at run + budget * 1000000, ag_order_event_digest = ''''\<rparr>
         else None)"

definition decide_grant :: "OrderRunFacts \<Rightarrow> PolicyDials \<Rightarrow> int \<Rightarrow> OrderRow list \<Rightarrow> ActiveGrant option \<times> bool" where
  "decide_grant run dials remaining rows =
     (let interval = interval_of remaining dials;
          final_chance = (interval = ''final-interval'' \<and> rf_final_chance_available run) in
      if interval \<in> {''ordinary'', ''final-interval''}
         \<and> int (length (rf_active_grants run)) < pd_concurrency dials
      then let (chosen, exploring) = choose_row run dials interval (grantable final_chance rows)
           in (Option.bind chosen (make_grant run dials remaining final_chance), exploring)
      else (None, False))"

definition remaining_seconds :: "OrderRunFacts \<Rightarrow> int" where
  "remaining_seconds run = max 0 (trunc_seconds (rf_final_submission_cutoff run - rf_boundary_at run))"

definition row_facts_of :: "env \<Rightarrow> OrderInput \<Rightarrow> IntakeSnapshot list \<Rightarrow> ChallengeSnapshot list \<Rightarrow> row_facts" where
  "row_facts_of E req hist pop =
     (let run = oi_run req; dials = oi_dials req; (categories, weak) = category_components pop (rf_attempts run)
      in \<lparr>rw_run = run, rw_dials = dials, rw_values = snd (snd (value_basis pop)),
          rw_crowd = crowd E pop hist (oa_crowd_source (oi_authority req)) run dials,
          rw_categories = categories, rw_weak = weak\<rparr>)"

definition decide_order :: "env \<Rightarrow> OrderInput \<Rightarrow> OrderDecision res" where
  "decide_order E request =
     (let run = oi_run request; dials = oi_dials request;
          hist = history (oi_authority request) dials;
          authority = (oi_authority request)\<lparr>oa_history := hist\<rparr>;
          req = request\<lparr>oi_authority := authority\<rparr> in
      bind_res (check_authority authority run) (\<lambda>_.
      bind_res (validate_facts authority run dials) (\<lambda>_.
      let pop = population (is_challenges (oa_snapshot authority)) (rf_solved run);
          (basis, fallback, values) = value_basis pop in
      bind_res (map_res (provisional_row (row_facts_of E req hist pop)) pop) (\<lambda>provisional.
      let remaining = remaining_seconds run;
          rows = rank_rows remaining dials (sort_key sort_row provisional);
          (grant, exploring) = decide_grant run dials remaining rows;
          interval = interval_of remaining dials
      in Inr \<lparr>od_boundary_id = rf_boundary_id run, od_boundary_at = rf_boundary_at run,
              od_snapshot_digest = is_digest (oa_snapshot authority), od_intake_fence = oa_fence authority,
              od_policy_digest = dials_digest E dials, od_input_digest = input_digest E req,
              od_input_document = input_document req, od_order_value_basis = basis,
              od_fallback_reason = fallback, od_rows = rows,
              od_working_set = map or_challenge_id (filter or_committed rows),
              od_active_grants = rf_active_grants run, od_grant = grant, od_grant_exploring = exploring,
              od_interval = interval,
              od_final_interval_seconds = (if interval = ''final-interval'' then remaining else 0),
              od_history_digests = map is_digest hist\<rparr>))))"

end
