(* ===== verification/Order_Laws.thy ===== *)
theory Order_Laws
  imports Order_Policy
begin

text \<open>
  Lemmas about the Order policy: extremal elements, the percentile loop against the mid-rank formula,
  the ranges of every component and Tier, that no dict lookup of the row loop can miss, and the shape
  of the ranked rows and of a grant.
\<close>

section \<open>Extremal elements\<close>

lemma foldl_select_in: "foldl (\<lambda>a b. if P a b then b else a) x xs \<in> insert x (set xs)"
  by (induction xs arbitrary: x) (auto split: if_splits)

lemma foldl_min_le:
  fixes f :: "'a \<Rightarrow> 'b :: linorder"
  assumes "y \<in> insert x (set xs)"
  shows "f (foldl (\<lambda>a b. if f b < f a then b else a) x xs) \<le> f y"
  using assms
proof (induction xs arbitrary: x y)
  case (Cons z zs)
  let ?w = "if f z < f x then z else x"
  have w: "f ?w \<le> f x" "f ?w \<le> f z" by auto
  from Cons.prems consider "y = x \<or> y = z" | "y \<in> set zs" by auto
  then show ?case
  proof cases
    case 1
    have "f (foldl (\<lambda>a b. if f b < f a then b else a) ?w zs) \<le> f ?w" by (rule Cons.IH) simp
    then show ?thesis using w 1 by auto
  next
    case 2
    then show ?thesis using Cons.IH [of y ?w] by simp
  qed
qed simp

lemma min_by_None [simp]: "min_by f xs = None \<longleftrightarrow> xs = []"
  by (cases xs) simp_all

lemma min_by_Some:
  assumes "min_by f xs = Some x"
  shows "x \<in> set xs" "y \<in> set xs \<Longrightarrow> f x \<le> f y"
proof -
  obtain z zs where xs: "xs = z # zs" using assms by (cases xs) simp_all
  show "x \<in> set xs" using assms foldl_select_in [of "\<lambda>a b. f b < f a" z zs] by (simp add: xs)
  show "y \<in> set xs \<Longrightarrow> f x \<le> f y" using assms foldl_min_le [of y z zs f] by (simp add: xs)
qed

lemma max_by_in: "max_by f xs = Some x \<Longrightarrow> x \<in> set xs"
  using foldl_select_in [of "\<lambda>a b. f a < f b"] by (cases xs) auto

section \<open>Percentiles\<close>

definition below :: "rat list \<Rightarrow> rat \<Rightarrow> nat" where
  "below all v = length (filter (\<lambda>x. x < v) all)"

text \<open>The mid-rank of \<open>v\<close> among \<open>all\<close>, on a scale from 0 to 1.\<close>

definition mid_rank :: "rat list \<Rightarrow> rat \<Rightarrow> rat" where
  "mid_rank all v = Fract (2 * int (below all v) + int (count_list all v) - 1) (2 * (int (length all) - 1))"

lemma below_step:
  assumes "v < w" "\<And>x. x \<in> set all \<Longrightarrow> v < x \<Longrightarrow> w \<le> x"
  shows "below all w = below all v + count_list all v"
  using assms(2)
proof (induction all)
  case (Cons a all)
  have "below all w = below all v + count_list all v" using Cons by simp
  moreover have "a < w \<longleftrightarrow> a \<le> v" using Cons.prems [of a] assms(1) by fastforce
  ultimately show ?case by (auto simp: below_def)
qed (simp add: below_def)

lemma percentile_loop_rank:
  assumes "sorted (v # vs)" "distinct (v # vs)" "c = below all v"
    and "\<And>x. x \<in> set all \<Longrightarrow> v \<le> x \<Longrightarrow> x \<in> set (v # vs)"
    and "w \<in> set (v # vs)"
  shows "map_of (percentile_loop all c (v # vs)) w = Some (mid_rank all w)"
  using assms
proof (induction vs arbitrary: v c)
  case Nil
  then show ?case by (simp add: mid_rank_def Let_def)
next
  case (Cons u us)
  show ?case
  proof (cases "w = v")
    case True
    then show ?thesis using Cons.prems(3) by (simp add: mid_rank_def Let_def)
  next
    case False
    have vu: "v < u" using Cons.prems(1,2) by (auto simp: less_le)
    have next_le: "u \<le> x" if "x \<in> set all" "v < x" for x
      using Cons.prems(4) [OF that(1)] that(2) Cons.prems(1) by auto
    have "below all u = c + count_list all v"
      using below_step [OF vu next_le] Cons.prems(3) by simp
    moreover have "x \<in> set (u # us)" if "x \<in> set all" "u \<le> x" for x
      using Cons.prems(4) [OF that(1)] that(2) vu by auto
    ultimately have "map_of (percentile_loop all (c + count_list all v) (u # us)) w = Some (mid_rank all w)"
      using Cons.IH [of u "c + count_list all v"] Cons.prems(1,2,5) False by simp
    then show ?thesis using False by (simp add: Let_def)
  qed
qed

lemma percentile_loop_mid_rank:
  assumes "w \<in> set all"
  shows "map_of (percentile_loop all 0 (sort (remdups all))) w = Some (mid_rank all w)"
proof -
  obtain v vs where s: "sort (remdups all) = v # vs"
    using assms by (cases "sort (remdups all)") (metis set_sort set_remdups empty_iff set_empty2, simp)
  have set: "set (v # vs) = set all" using s by (metis set_sort set_remdups)
  have so: "sorted (v # vs)" "distinct (v # vs)" using s by (metis sorted_sort, metis distinct_sort distinct_remdups)
  have "below all v = 0"
  proof -
    have "\<not> x < v" if "x \<in> set all" for x using that so(1) unfolding set [symmetric] by auto
    then show ?thesis by (simp add: below_def filter_empty_conv)
  qed
  then show ?thesis
    unfolding s using so set assms by (intro percentile_loop_rank) simp_all
qed

lemma below_count_le: "below all v + count_list all v \<le> length all"
  by (induction all) (auto simp: below_def)

lemma count_pos: "v \<in> set all \<Longrightarrow> 0 < count_list all v"
  by (induction all) auto

lemma mid_rank_range:
  assumes "v \<in> set all" "2 \<le> length all"
  shows "0 \<le> mid_rank all v" "mid_rank all v \<le> 1"
proof -
  have "1 \<le> int (count_list all v)" "int (below all v) + int (count_list all v) \<le> int (length all)"
    using count_pos [OF assms(1)] below_count_le [of all v] by linarith+
  then have "0 \<le> 2 * int (below all v) + int (count_list all v) - 1"
    "2 * int (below all v) + int (count_list all v) - 1 \<le> 2 * (int (length all) - 1)"
    by auto
  moreover have "0 < 2 * (int (length all) - 1)" using assms(2) by simp
  ultimately show "0 \<le> mid_rank all v" "mid_rank all v \<le> 1"
    unfolding mid_rank_def by (simp_all add: zero_le_Fract_iff Fract_le_one_iff)
qed

lemma map_of_map_key: "map_of (map (\<lambda>(k, v). (k, f k v)) xs) k = map_option (f k) (map_of xs k)"
  by (induction xs) auto

lemma percentiles_lookup:
  assumes "map_of values k = Some v"
  shows "map_of (percentiles values) k =
     Some (if length values = 1 then 1 / 2 else mid_rank (map snd values) v)"
proof -
  have "v \<in> set (map snd values)" using assms by (force dest: map_of_SomeD)
  then show ?thesis
    using assms percentile_loop_mid_rank
    by (simp add: percentiles_def Let_def map_of_map)
qed

lemma percentiles_range:
  assumes "map_of (percentiles values) k = Some p"
  shows "0 \<le> p \<and> p \<le> 1"
proof -
  have "map_of values k \<noteq> None"
    using assms by (auto simp: percentiles_def Let_def map_of_map split: if_splits)
  then obtain v where v: "map_of values k = Some v" by auto
  then have "v \<in> set (map snd values)" "values \<noteq> []" by (force dest: map_of_SomeD, auto)
  then have "length values \<noteq> 1 \<Longrightarrow> 2 \<le> length (map snd values)" by (cases "values") (auto simp: Suc_le_eq)
  then show ?thesis
    using percentiles_lookup [OF v] assms mid_rank_range [OF \<open>v \<in> set (map snd values)\<close>]
    by (simp split: if_splits)
qed

section \<open>No lookup misses\<close>

abbreviation ids_of :: "ChallengeSnapshot list \<Rightarrow> TypedId list" where
  "ids_of pop \<equiv> map cs_challenge_id pop"

lemma dict_of_ids: "map_of (dict_of (map (\<lambda>c. (cs_challenge_id c, g c)) pop)) k \<noteq> None \<longleftrightarrow> k \<in> set (ids_of pop)"
  unfolding map_of_dict_of_None by (simp add: image_image)

lemma dict_of_ids_Some:
  assumes "map_of (dict_of (map (\<lambda>c. (f c, g c)) pop)) k = Some v"
  obtains c where "c \<in> set pop" "f c = k" "v = g c"
  using map_of_dict_of_Some [OF assms] by auto

lemma value_lookup: "map_of (snd (snd (value_basis pop))) k \<noteq> None \<longleftrightarrow> k \<in> set (ids_of pop)"
proof (cases "min_by cs_challenge_id (filter unsettled_value pop)")
  case None
  show ?thesis unfolding value_basis_def Let_def None option.case snd_conv by (rule dict_of_ids)
next
  case (Some c)
  show ?thesis unfolding value_basis_def Some option.case snd_conv by (rule dict_of_ids)
qed

lemma map_option_None: "map_option f x \<noteq> None \<longleftrightarrow> x \<noteq> None"
  by simp

lemma crowd_lookup: "map_of (crowd E pop hist source run dials) k \<noteq> None \<longleftrightarrow> k \<in> set (ids_of pop)"
proof -
  consider "cw_synthetic source \<or> \<not> cw_structurally_trusted source"
    | "\<not> (cw_synthetic source \<or> \<not> cw_structurally_trusted source)"
      "rf_boundary_at run - is_observed_at (hd hist) > pd_crowd_max_age_seconds dials * 1000000"
    | "\<not> (cw_synthetic source \<or> \<not> cw_structurally_trusted source)"
      "\<not> rf_boundary_at run - is_observed_at (hd hist) > pd_crowd_max_age_seconds dials * 1000000"
    by blast
  then show ?thesis
    by cases (simp_all only: crowd_def Let_def if_True if_False map_of_map_key map_option_None dict_of_ids)
qed

lemma map_res_ok: "(\<And>x. x \<in> set xs \<Longrightarrow> f x = Inr (g x)) \<Longrightarrow> map_res f xs = Inr (map g xs)"
  by (induction xs) simp_all

definition row_of :: "row_facts \<Rightarrow> ChallengeSnapshot \<Rightarrow> OrderRow" where
  "row_of fs c =
     build_row fs c (the (map_of (rw_crowd fs) (cs_challenge_id c))) (the (map_of (rw_values fs) (cs_challenge_id c)))"

lemma row_facts_of_simps [simp]:
  "rw_run (row_facts_of E req hist pop) = oi_run req"
  "rw_dials (row_facts_of E req hist pop) = oi_dials req"
  "rw_values (row_facts_of E req hist pop) = snd (snd (value_basis pop))"
  "rw_crowd (row_facts_of E req hist pop) = crowd E pop hist (oa_crowd_source (oi_authority req)) (oi_run req) (oi_dials req)"
  "rw_categories (row_facts_of E req hist pop) = fst (category_components pop (rf_attempts (oi_run req)))"
  "rw_weak (row_facts_of E req hist pop) = snd (category_components pop (rf_attempts (oi_run req)))"
  by (simp_all add: row_facts_of_def Let_def case_prod_unfold)

lemma provisional_rows:
  "map_res (provisional_row (row_facts_of E req hist pop)) pop = Inr (map (row_of (row_facts_of E req hist pop)) pop)"
proof (rule map_res_ok)
  fix c assume c: "c \<in> set pop"
  let ?fs = "row_facts_of E req hist pop"
  have k: "cs_challenge_id c \<in> set (ids_of pop)" using c by simp
  obtain cd where cd: "map_of (rw_crowd ?fs) (cs_challenge_id c) = Some cd"
    using crowd_lookup k unfolding row_facts_of_simps by (meson option.exhaust)
  obtain v where v: "map_of (rw_values ?fs) (cs_challenge_id c) = Some v"
    using value_lookup k unfolding row_facts_of_simps by (meson option.exhaust)
  show "provisional_row ?fs c = Inr (row_of ?fs c)"
    unfolding provisional_row_def row_of_def cd v by simp
qed

section \<open>The shape of a decision\<close>

definition order_pop :: "OrderInput \<Rightarrow> ChallengeSnapshot list" where
  "order_pop req = population (is_challenges (oa_snapshot (oi_authority req))) (rf_solved (oi_run req))"

definition order_hist :: "OrderInput \<Rightarrow> IntakeSnapshot list" where
  "order_hist req = history (oi_authority req) (oi_dials req)"

definition selected :: "OrderInput \<Rightarrow> OrderInput" where
  "selected req = req\<lparr>oi_authority := (oi_authority req)\<lparr>oa_history := order_hist req\<rparr>\<rparr>"

definition order_facts :: "env \<Rightarrow> OrderInput \<Rightarrow> row_facts" where
  "order_facts E req = row_facts_of E (selected req) (order_hist req) (order_pop req)"

definition sorted_rows :: "env \<Rightarrow> OrderInput \<Rightarrow> OrderRow list" where
  "sorted_rows E req = sort_key sort_row (map (row_of (order_facts E req)) (order_pop req))"

definition order_rows :: "env \<Rightarrow> OrderInput \<Rightarrow> OrderRow list" where
  "order_rows E req = rank_rows (remaining_seconds (oi_run req)) (oi_dials req) (sorted_rows E req)"

text \<open>The facts that the decision demands of its input.\<close>

definition order_valid :: "OrderInput \<Rightarrow> bool" where
  "order_valid req =
     (let a = oi_authority req; s = oa_snapshot a; run = oi_run req; dials = oi_dials req in
      0 \<le> oa_effective_max_challenges a \<and> oa_effective_max_challenges a \<le> 100000
      \<and> pf_snapshot_digest (oa_fence a) = is_digest s \<and> pf_profile_digest (oa_fence a) = is_profile_digest s
      \<and> int (length (is_challenges s)) \<le> oa_effective_max_challenges a \<and> is_observed_at s \<le> rf_boundary_at run
      \<and> distinct (ids_of (is_challenges s))
      \<and> list_all (\<lambda>h. is_profile_digest h = is_profile_digest s) (order_hist req)
      \<and> rf_boundary_at run \<le> rf_final_submission_cutoff run \<and> 0 \<le> rf_window_seconds run
      \<and> 1 \<le> rf_next_generation run
      \<and> 0 < pd_floor_seconds dials \<and> 0 < pd_knee_seconds dials \<and> 0 < pd_attempts_full dials
      \<and> 0 < pd_checkpoints_full dials \<and> 0 < pd_explore_every dials \<and> 0 < pd_concurrency dials
      \<and> distinct (map (\<lambda>x. (at_challenge_id x, at_attempt_id x)) (rf_attempts run))
      \<and> distinct (map pc_challenge_id (rf_prior_crowd run))
      \<and> distinct (map du_challenge_id (rf_durable_tiers run))
      \<and> distinct (map ad_challenge_id (rf_admission run)))"

lemma selected_simps [simp]:
  "oi_run (selected req) = oi_run req" "oi_dials (selected req) = oi_dials req"
  "oa_snapshot (oi_authority (selected req)) = oa_snapshot (oi_authority req)"
  "oa_fence (oi_authority (selected req)) = oa_fence (oi_authority req)"
  "oa_history (oi_authority (selected req)) = order_hist req"
  "oa_effective_max_challenges (oi_authority (selected req)) = oa_effective_max_challenges (oi_authority req)"
  "oa_crowd_source (oi_authority (selected req)) = oa_crowd_source (oi_authority req)"
  by (simp_all add: selected_def)

lemma bind_guard: "bind_res (guard_res ok e) f = (if ok then f () else Inl e)"
  by (simp add: guard_res_def)

lemma nested_guard: "(if a then if b then x else y else y) = (if a \<and> b then x else y)"
  by simp

lemma decide_order_checks:
  "bind_res (check_authority (oi_authority (selected req)) (oi_run req)) (\<lambda>_.
     bind_res (validate_facts (oi_authority (selected req)) (oi_run req) (oi_dials req)) (\<lambda>_. k))
   = (if order_valid req then k else Inl ValueError)"
  unfolding check_authority_def validate_facts_def order_valid_def Let_def selected_simps
  by (simp add: guard_res_def)

definition decision_of :: "env \<Rightarrow> OrderInput \<Rightarrow> OrderDecision" where
  "decision_of E req =
     (let run = oi_run req; dials = oi_dials req; remaining = remaining_seconds run; rows = order_rows E req;
          interval = interval_of remaining dials; grant = decide_grant run dials remaining rows;
          basis = value_basis (order_pop req)
      in \<lparr>od_boundary_id = rf_boundary_id run, od_boundary_at = rf_boundary_at run,
          od_snapshot_digest = is_digest (oa_snapshot (oi_authority req)), od_intake_fence = oa_fence (oi_authority req),
          od_policy_digest = dials_digest E dials, od_input_digest = input_digest E (selected req),
          od_input_document = input_document (selected req), od_order_value_basis = fst basis,
          od_fallback_reason = fst (snd basis), od_rows = rows,
          od_working_set = map or_challenge_id (filter or_committed rows),
          od_active_grants = rf_active_grants run, od_grant = fst grant, od_grant_exploring = snd grant,
          od_interval = interval,
          od_final_interval_seconds = (if interval = ''final-interval'' then remaining else 0),
          od_history_digests = map is_digest (order_hist req)\<rparr>)"

lemma decide_order_eq: "decide_order E req = (if order_valid req then Inr (decision_of E req) else Inl ValueError)"
proof -
  have h: "history (oi_authority req) (oi_dials req) = order_hist req"
    and a: "(oi_authority req)\<lparr>oa_history := order_hist req\<rparr> = oi_authority (selected req)"
    and r: "req\<lparr>oi_authority := oi_authority (selected req)\<rparr> = selected req"
    and p: "population (is_challenges (oa_snapshot (oi_authority req))) (rf_solved (oi_run req)) = order_pop req"
    by (simp_all add: order_hist_def selected_def order_pop_def)
  have "decide_order E req =
    bind_res (check_authority (oi_authority (selected req)) (oi_run req)) (\<lambda>_.
      bind_res (validate_facts (oi_authority (selected req)) (oi_run req) (oi_dials req)) (\<lambda>_.
        Inr (decision_of E req)))"
    unfolding decide_order_def Let_def h a r case_prod_unfold provisional_rows bind_res_simps
      decision_of_def order_rows_def sorted_rows_def order_facts_def selected_simps p
    by (rule refl)
  then show ?thesis unfolding decide_order_checks .
qed

lemma decide_order_Inr:
  assumes "decide_order E req = Inr d"
  shows "order_valid req" "d = decision_of E req"
  using assms unfolding decide_order_eq by (simp_all split: if_splits)

section \<open>Ranges of the components\<close>

lemma Fract_unit: "0 \<le> a \<Longrightarrow> 0 < b \<Longrightarrow> a \<le> b \<Longrightarrow> 0 \<le> Fract a b \<and> Fract a b \<le> 1"
  by (simp add: zero_le_Fract_iff Fract_le_one_iff)

definition crowd_ok :: "CrowdDecision \<Rightarrow> bool" where
  "crowd_ok cd = (0 \<le> cd_percentile cd \<and> cd_percentile cd \<le> 1 \<and> 0 \<le> cd_reliability cd \<and> cd_reliability cd \<le> 1)"

lemma unavailable_ok: "crowd_ok (unavailable reason)"
  by (simp add: crowd_ok_def unavailable_def)

lemma crowd_decision_ok: "crowd_ok (crowd_decision st (percentiles values) newest key)"
  using percentiles_range by (auto simp: crowd_ok_def crowd_decision_def split: prod.split option.split)

lemma crowd_ok_lookup:
  assumes "map_of (crowd E pop hist source run dials) k = Some cd"
  shows "crowd_ok cd"
proof -
  consider "cw_synthetic source \<or> \<not> cw_structurally_trusted source"
    | "\<not> (cw_synthetic source \<or> \<not> cw_structurally_trusted source)"
      "rf_boundary_at run - is_observed_at (hd hist) > pd_crowd_max_age_seconds dials * 1000000"
    | "\<not> (cw_synthetic source \<or> \<not> cw_structurally_trusted source)"
      "\<not> rf_boundary_at run - is_observed_at (hd hist) > pd_crowd_max_age_seconds dials * 1000000"
    by blast
  then show ?thesis
  proof cases
    case 1
    then show ?thesis
      using assms unfolding crowd_def Let_def by (simp only: if_True) (elim dict_of_ids_Some, simp add: unavailable_ok)
  next
    case 2
    then show ?thesis
      using assms unfolding crowd_def Let_def
      by (simp only: if_True if_False) (elim dict_of_ids_Some, simp add: unavailable_ok)
  next
    case 3
    then show ?thesis
      using assms unfolding crowd_def Let_def
      by (simp only: if_False map_of_map_key) (auto simp: crowd_decision_ok)
  qed
qed

lemma half_blend:
  fixes r p :: rat
  assumes "0 \<le> r" "r \<le> 1" "0 \<le> p" "p \<le> 1"
  shows "0 \<le> 1 / 2 + r * (p - 1 / 2)" "1 / 2 + r * (p - 1 / 2) \<le> 1"
proof -
  have "\<bar>p - 1 / 2\<bar> \<le> 1 / 2" using assms(3,4) unfolding abs_le_iff by simp
  then have "\<bar>r * (p - 1 / 2)\<bar> \<le> 1 * (1 / 2)"
    unfolding abs_mult using assms(1,2) by (intro mult_mono) simp_all
  then show "0 \<le> 1 / 2 + r * (p - 1 / 2)" "1 / 2 + r * (p - 1 / 2) \<le> 1" by (simp_all add: abs_le_iff)
qed

lemma crowd_component_range: "crowd_ok cd \<Longrightarrow> 0 \<le> crowd_component cd \<and> crowd_component cd \<le> 1"
  using half_blend by (simp add: crowd_ok_def crowd_component_def)

lemma value_of_nonneg: "0 \<le> value_of c"
  using settled_count_nonneg by (auto simp: value_of_def split: option.split)

lemma value_range:
  assumes "map_of (snd (snd (value_basis pop))) k = Some v"
  shows "0 \<le> v \<and> v \<le> 1"
proof (cases "min_by cs_challenge_id (filter unsettled_value pop)")
  case (Some c)
  show ?thesis
    using assms unfolding value_basis_def Some option.case snd_conv by (elim dict_of_ids_Some) simp
next
  case None
  let ?m = "if pop = [] then 0 else Max (set (map value_of pop))"
  have "map_of (dict_of (map (\<lambda>c. (cs_challenge_id c, if ?m \<noteq> 0 then Fract (value_of c) ?m else 0)) pop)) k = Some v"
    using assms unfolding value_basis_def None option.case Let_def snd_conv .
  then obtain c where c: "c \<in> set pop" "v = (if ?m \<noteq> 0 then Fract (value_of c) ?m else 0)"
    by (rule dict_of_ids_Some)
  have "value_of c \<le> ?m" using c(1) by (auto intro: Max_ge)
  then have "?m \<noteq> 0 \<Longrightarrow> 0 \<le> Fract (value_of c) ?m \<and> Fract (value_of c) ?m \<le> 1"
    using value_of_nonneg [of c] by (intro Fract_unit) linarith+
  then show ?thesis using c(2) by (cases "?m = 0") simp_all
qed

definition counts_ok :: "AttemptFact list \<Rightarrow> bool" where
  "counts_ok attempts = list_all (\<lambda>a. 0 \<le> at_checkpoints a \<and> 0 \<le> at_seconds_ms a) attempts"

lemma counts_ok_filter: "counts_ok xs \<Longrightarrow> counts_ok (filter P xs)"
  by (auto simp: counts_ok_def list_all_iff)

lemma totals_nonneg: "counts_ok xs \<Longrightarrow> 0 \<le> total_checkpoints xs \<and> 0 \<le> total_ms xs"
  unfolding counts_ok_def total_checkpoints_def total_ms_def list_all_iff
  by (auto intro!: sum_list_nonneg)

lemma category_rate_nonneg: "counts_ok xs \<Longrightarrow> 0 \<le> category_rate xs"
  using totals_nonneg [of xs] by (simp add: category_rate_def zero_le_Fract_iff)

lemma category_range:
  assumes "counts_ok attempts" "map_of (fst (category_components pop attempts)) k = Some r"
  shows "0 \<le> r \<and> r \<le> 1"
proof (cases "category_rates attempts = []")
  case True
  then have "fst (category_components pop attempts) = dict_of (map (\<lambda>c. (cs_category c, 1 / 2)) pop)"
    by (simp add: category_components_def Let_def)
  then show ?thesis using assms(2) by (simp only:) (elim dict_of_ids_Some, simp)
next
  case False
  define top where "top = Max (set (map snd (category_rates attempts)))"
  have rate: "0 \<le> q" "q \<le> top" if "map_of (category_rates attempts) c = Some q" for c q
  proof -
    have m: "(c, q) \<in> set (category_rates attempts)" using that by (rule map_of_SomeD)
    then show "0 \<le> q"
      using category_rate_nonneg [OF counts_ok_filter [OF assms(1)]] by (auto simp: category_rates_def in_category_def)
    show "q \<le> top" unfolding top_def using m by (intro Max_ge) force+
  qed
  have eq: "fst (category_components pop attempts) = dict_of (map (\<lambda>c. (cs_category c,
      case map_of (category_rates attempts) (cs_category c) of None \<Rightarrow> 1 / 2
      | Some q \<Rightarrow> if top \<noteq> 0 then q / top else 1 / 2)) pop)"
    using False unfolding category_components_def Let_def top_def by simp
  from assms(2) [unfolded eq] obtain c where "c \<in> set pop" "cs_category c = k" "r = (case map_of (category_rates attempts) (cs_category c) of None \<Rightarrow> 1 / 2
      | Some q \<Rightarrow> if top \<noteq> 0 then q / top else 1 / 2)"
    by (rule dict_of_ids_Some)
  moreover have "0 \<le> q / top \<and> q / top \<le> 1" if "map_of (category_rates attempts) cat = Some q" for cat q
    using rate [OF that] by (cases "top = 0") (auto simp: divide_le_eq_1 zero_le_divide_iff)
  ultimately show ?thesis by (simp split: option.splits if_splits)
qed

lemma ceiling_pos: "0 < ceiling_ms window dials"
  by (simp add: ceiling_ms_def)

lemma spend_range:
  assumes "counts_ok xs" "0 < pd_attempts_full dials"
  shows "0 \<le> spend xs window dials" "spend xs window dials \<le> 1"
proof -
  have "0 \<le> Fract (int (length xs)) (pd_attempts_full dials)" using assms(2) by (simp add: zero_le_Fract_iff)
  then show "0 \<le> spend xs window dials" unfolding spend_def spend_ratio_def by (auto simp: le_max_iff_disj)
  show "spend xs window dials \<le> 1" by (simp add: spend_def)
qed

definition unit_components :: "Components \<Rightarrow> bool" where
  "unit_components co =
     list_all (\<lambda>x. 0 \<le> x \<and> x \<le> 1)
       [co_crowd co, co_value co, co_lease co, co_progress co, co_category co, co_spend co]"

lemma row_components_unit:
  assumes "counts_ok (rf_attempts (rw_run fs))" "0 < pd_attempts_full (rw_dials fs)" "0 < pd_checkpoints_full (rw_dials fs)"
    and "crowd_ok cd" "0 \<le> v \<and> v \<le> 1" "\<And>k r. map_of (rw_categories fs) k = Some r \<Longrightarrow> 0 \<le> r \<and> r \<le> 1"
  shows "unit_components (row_components fs c cd v)"
proof -
  have ok: "counts_ok (attempts_of (rf_attempts (rw_run fs)) (cs_challenge_id c))"
    unfolding attempts_of_def by (rule counts_ok_filter) (rule assms(1))
  have "0 \<le> Fract (total_checkpoints (attempts_of (rf_attempts (rw_run fs)) (cs_challenge_id c))) (pd_checkpoints_full (rw_dials fs))"
    using totals_nonneg [OF ok] assms(3) by (simp add: zero_le_Fract_iff)
  then show ?thesis
    unfolding unit_components_def row_components_def Let_def
    using crowd_component_range [OF assms(4)] assms(5,6) spend_range [OF ok assms(2)]
    by (auto split: option.split)
qed

section \<open>Ranked rows\<close>

lemma length_rank_rows [simp]: "length (rank_rows remaining dials rows) = length rows"
  by (simp add: rank_rows_def Let_def del: upt_Suc)

lemma rank_rows_nth:
  assumes "i < length rows"
  shows "rank_rows remaining dials rows ! i =
    (rows ! i)\<lparr>or_rank := int (Suc i),
      or_committed := (or_challenge_id (rows ! i)
        \<in> or_challenge_id ` set (take (affordable remaining dials rows) (not_deferred rows)))\<rparr>"
  using assms by (simp add: rank_rows_def Let_def del: upt_Suc)

lemma rank_rows_map:
  assumes "\<And>r i b. f (r\<lparr>or_rank := i, or_committed := b\<rparr>) = f r"
  shows "map f (rank_rows remaining dials rows) = map f rows"
  using assms by (intro nth_equalityI) (simp_all add: rank_rows_nth)

lemmas rank_rows_fields =
  rank_rows_map [of or_challenge_id, simplified] rank_rows_map [of sort_row, simplified sort_row_def, simplified]
  rank_rows_map [of or_deferred_reason, simplified] rank_rows_map [of or_final_tier, simplified]

lemma rank_rows_ranks: "map or_rank (rank_rows remaining dials rows) = map int [1..<Suc (length rows)]"
  by (rule nth_equalityI) (simp_all add: rank_rows_nth del: upt_Suc)

lemma filter_take_filter:
  assumes "distinct (map f xs)"
  shows "filter (\<lambda>x. f x \<in> f ` set (take n (filter P xs))) xs = take n (filter P xs)"
  using assms
proof (induction xs arbitrary: n)
  case (Cons x xs)
  have fresh: "f y \<noteq> f x" if "y \<in> set xs" for y using Cons.prems that by (auto simp: image_iff)
  have sub: "set (take m (filter P xs)) \<subseteq> set xs" for m by (auto dest: in_set_takeD)
  have out: "f x \<notin> f ` set (take m (filter P xs))" for m using fresh sub by fastforce
  have IH: "filter (\<lambda>y. f y \<in> f ` set (take m (filter P xs))) xs = take m (filter P xs)" for m
    using Cons by simp
  show ?case
  proof (cases "P x \<and> n \<noteq> 0")
    case True
    then obtain m where n: "n = Suc m" by (cases n) auto
    have "filter (\<lambda>y. f y \<in> insert (f x) (f ` set (take m (filter P xs)))) xs
      = filter (\<lambda>y. f y \<in> f ` set (take m (filter P xs))) xs"
      using fresh by (intro filter_cong) auto
    then show ?thesis using True IH [of m] by (simp add: n)
  next
    case False
    then have "take n (filter P (x # xs)) = take n (filter P xs)" by (cases n) auto
    then show ?thesis using out IH by simp
  qed
qed simp

lemma rank_rows_committed:
  assumes "distinct (map or_challenge_id rows)"
  shows "map or_challenge_id (filter or_committed (rank_rows remaining dials rows))
    = map or_challenge_id (take (affordable remaining dials rows) (not_deferred rows))"
proof -
  let ?c = "\<lambda>k. k \<in> or_challenge_id ` set (take (affordable remaining dials rows) (not_deferred rows))"
  have mem: "or_committed r = ?c (or_challenge_id r)" if "r \<in> set (rank_rows remaining dials rows)" for r
    using that by (auto simp: in_set_conv_nth rank_rows_nth)
  have "map or_challenge_id (filter or_committed (rank_rows remaining dials rows))
    = map or_challenge_id (filter (?c \<circ> or_challenge_id) (rank_rows remaining dials rows))"
    using mem by (intro arg_cong [of _ _ "map or_challenge_id"] filter_cong) simp_all
  also have "\<dots> = filter ?c (map or_challenge_id (rank_rows remaining dials rows))"
    by (simp only: filter_map)
  also have "\<dots> = filter ?c (map or_challenge_id rows)" by (simp only: rank_rows_fields)
  also have "\<dots> = map or_challenge_id (filter (?c \<circ> or_challenge_id) rows)" by (simp only: filter_map)
  also have "filter (?c \<circ> or_challenge_id) rows = take (affordable remaining dials rows) (not_deferred rows)"
    unfolding not_deferred_def comp_def by (rule filter_take_filter) (rule assms)
  finally show ?thesis .
qed

lemma row_of_simps [simp]:
  "or_challenge_id (row_of fs c) = cs_challenge_id c"
  "or_rank (row_of fs c) = 0"
  "or_deferred_reason (row_of fs c) = deferred_reason (rw_run fs) (rw_dials fs) (cs_challenge_id c)"
  "or_budget_s (row_of fs c) = length_of_tier (or_final_tier (row_of fs c)) (rw_dials fs)"
  by (simp_all add: row_of_def build_row_def Let_def)

lemma order_pop_ids: "order_valid req \<Longrightarrow> distinct (ids_of (order_pop req))"
  by (simp add: order_valid_def Let_def order_pop_def population_def distinct_map_filter)

lemma sorted_rows_mset: "mset (sorted_rows E req) = mset (map (row_of (order_facts E req)) (order_pop req))"
  by (simp add: sorted_rows_def)

lemma sorted_rows_ids: "mset (map or_challenge_id (sorted_rows E req)) = mset (ids_of (order_pop req))"
proof -
  have "mset (map or_challenge_id (sorted_rows E req)) = image_mset or_challenge_id (mset (sorted_rows E req))"
    by (simp only: mset_map)
  then show ?thesis by (simp add: sorted_rows_mset image_mset.compositionality comp_def)
qed

lemma sorted_rows_distinct: "order_valid req \<Longrightarrow> distinct (map or_challenge_id (sorted_rows E req))"
  using order_pop_ids mset_eq_imp_distinct_iff [OF sorted_rows_ids] by blast

lemma sorted_rows_row:
  assumes "r \<in> set (sorted_rows E req)"
  obtains c where "c \<in> set (order_pop req)" "r = row_of (order_facts E req) c"
  using assms by (auto simp: sorted_rows_def)

lemma order_rows_row:
  assumes "r \<in> set (order_rows E req)"
  obtains c i b where "c \<in> set (order_pop req)"
    "r = (row_of (order_facts E req) c)\<lparr>or_rank := i, or_committed := b\<rparr>"
proof -
  obtain j where j: "j < length (sorted_rows E req)" "r = order_rows E req ! j"
    using assms by (auto simp: in_set_conv_nth order_rows_def)
  obtain c where "c \<in> set (order_pop req)" "sorted_rows E req ! j = row_of (order_facts E req) c"
    using sorted_rows_row nth_mem [OF j(1)] by metis
  then show ?thesis using that j by (simp add: order_rows_def rank_rows_nth)
qed

lemma order_facts_simps [simp]:
  "rw_run (order_facts E req) = oi_run req" "rw_dials (order_facts E req) = oi_dials req"
  by (simp_all add: order_facts_def)

lemma final_tier_range: "1 \<le> final_tier fs c base \<and> final_tier fs c base \<le> 4"
  by (simp add: final_tier_def)

lemma row_of_tier: "1 \<le> or_final_tier (row_of fs c) \<and> or_final_tier (row_of fs c) \<le> 4"
  using final_tier_range by (simp add: row_of_def build_row_def Let_def)

lemma row_of_components:
  assumes "order_valid req" "counts_ok (rf_attempts (oi_run req))" "c \<in> set (order_pop req)"
  shows "unit_components (or_components (row_of (order_facts E req) c))"
proof -
  let ?fs = "order_facts E req"
  have k: "cs_challenge_id c \<in> set (ids_of (order_pop req))" using assms(3) by simp
  obtain cd where cd: "map_of (rw_crowd ?fs) (cs_challenge_id c) = Some cd"
    using crowd_lookup k unfolding row_facts_of_simps order_facts_def by (meson option.exhaust)
  obtain v where v: "map_of (rw_values ?fs) (cs_challenge_id c) = Some v"
    using value_lookup k unfolding row_facts_of_simps order_facts_def by (meson option.exhaust)
  have "unit_components (row_components ?fs c cd v)"
  proof (rule row_components_unit)
    show "crowd_ok cd" using cd unfolding order_facts_def row_facts_of_simps by (rule crowd_ok_lookup)
    show "0 \<le> v \<and> v \<le> 1" using v unfolding order_facts_def row_facts_of_simps by (rule value_range)
    show "0 \<le> r \<and> r \<le> 1" if "map_of (rw_categories ?fs) k = Some r" for k r
      using that assms(2) unfolding order_facts_def row_facts_of_simps selected_simps by (intro category_range)
  qed (use assms in \<open>simp_all add: order_valid_def Let_def\<close>)
  then show ?thesis by (simp add: row_of_def build_row_def Let_def cd v)
qed

section \<open>Grants\<close>

abbreviation explores :: "OrderRunFacts \<Rightarrow> PolicyDials \<Rightarrow> string \<Rightarrow> OrderRow list \<Rightarrow> bool" where
  "explores run dials interval rows \<equiv>
     interval = ''ordinary'' \<and> rows \<noteq> [] \<and> explore_turn run dials
     \<and> filter (\<lambda>r. cd_state (or_crowd r) \<noteq> ''qualified'') rows \<noteq> []"

lemma choose_row_cases:
  assumes "choose_row run dials interval rows = (Some r, e)"
  shows "if e then explores run dials interval rows
      \<and> min_by (explore_key dials) (filter (\<lambda>r. cd_state (or_crowd r) \<noteq> ''qualified'') rows) = Some r
    else \<not> explores run dials interval rows \<and> rows \<noteq> [] \<and> r = hd rows"
proof (cases "explores run dials interval rows")
  case True
  then show ?thesis using assms unfolding choose_row_def Let_def by (simp only: if_True) simp
next
  case False
  then show ?thesis
    using assms unfolding choose_row_def Let_def by (simp only: if_False) (simp split: list.splits)
qed

lemma choose_row_in:
  assumes "choose_row run dials interval rows = (Some r, e)"
  shows "r \<in> set rows"
  using choose_row_cases [OF assms]
    min_by_Some(1) [of "explore_key dials" "filter (\<lambda>r. cd_state (or_crowd r) \<noteq> ''qualified'') rows" r]
  by (cases e) auto

lemma decide_grant_Some:
  assumes "fst (decide_grant run dials remaining rows) = Some g"
  obtains r final_chance where
    "final_chance = (interval_of remaining dials = ''final-interval'' \<and> rf_final_chance_available run)"
    "0 < remaining" "int (length (rf_active_grants run)) < pd_concurrency dials"
    "fst (choose_row run dials (interval_of remaining dials) (grantable final_chance rows)) = Some r"
    "r \<in> set rows" "or_committed r \<or> final_chance" "or_deferred_reason r = ''''"
    "make_grant run dials remaining final_chance r = Some g"
proof -
  let ?fc = "interval_of remaining dials = ''final-interval'' \<and> rf_final_chance_available run"
  let ?ch = "choose_row run dials (interval_of remaining dials) (grantable ?fc rows)"
  have on: "interval_of remaining dials \<in> {''ordinary'', ''final-interval''}"
    "int (length (rf_active_grants run)) < pd_concurrency dials"
    using assms unfolding decide_grant_def Let_def by (auto split: if_splits)
  have "Option.bind (fst ?ch) (make_grant run dials remaining ?fc) = Some g"
    using assms on unfolding decide_grant_def Let_def by (simp add: case_prod_unfold)
  then obtain r where r: "fst ?ch = Some r" "make_grant run dials remaining ?fc r = Some g"
    by (auto simp: bind_eq_Some_conv)
  have "r \<in> set (grantable ?fc rows)"
    using r(1) choose_row_in [of run dials _ _ r "snd ?ch"] by (metis prod.collapse)
  then have "r \<in> set rows" "or_committed r \<or> ?fc" "or_deferred_reason r = ''''"
    by (auto simp: grantable_def)
  moreover have "0 < remaining" using on(1) by (auto simp: interval_of_def split: if_splits)
  ultimately show ?thesis using that [OF refl _ on(2)] r by blast
qed

lemma make_grant_Some:
  assumes "make_grant run dials remaining final_chance r = Some g"
  shows "ag_challenge_id g = or_challenge_id r" "ag_tier g = or_final_tier r"
    "ag_deadline g = rf_boundary_at run + ag_budget_s g * 1000000"
    "ag_budget_s g \<le> or_budget_s r" "ag_budget_s g \<le> remaining"
    "pd_floor_seconds dials \<le> ag_budget_s g \<or> final_chance \<and> 0 < ag_budget_s g"
    "Option.bind (admission_of run (or_challenge_id r)) ad_safe_deadline = Some t
      \<Longrightarrow> ag_budget_s g \<le> trunc_seconds (t - rf_boundary_at run)"
  using assms unfolding make_grant_def Let_def by (auto split: if_splits)

end
