(* ===== verification/Order_Properties.thy ===== *)
theory Order_Properties
  imports Order_Laws
begin

text \<open>
  What the Order decision guarantees: when it answers, that its rows are a strict ranking of the whole
  population, the ranges of Tiers, budgets and components, which rows are committed, when a grant is
  safe and when the policy explores.
\<close>

section \<open>Supporting facts\<close>

lemma row_of_tie_break [simp]: "snd (or_tie_break (row_of fs c)) = cs_challenge_id c"
  by (simp add: row_of_def build_row_def Let_def)

lemma order_rows_ids: "map or_challenge_id (order_rows E req) = map or_challenge_id (sorted_rows E req)"
  by (simp only: order_rows_def rank_rows_fields)

lemma sorted_rows_strict:
  assumes "order_valid req"
  shows "sorted_wrt (<) (map sort_row (sorted_rows E req))"
proof -
  have "map or_challenge_id (sorted_rows E req) = map (\<lambda>p. snd (snd (snd p))) (map sort_row (sorted_rows E req))"
    by (auto simp: sort_row_def elim: sorted_rows_row)
  then have "distinct (map (\<lambda>p. snd (snd (snd p))) (map sort_row (sorted_rows E req)))"
    using sorted_rows_distinct [OF assms, of E] by (simp only:)
  then have "distinct (map sort_row (sorted_rows E req))" by (rule conjunct1 [OF distinct_map [THEN iffD1]])
  moreover have "sorted (map sort_row (sorted_rows E req))" by (simp add: sorted_rows_def)
  ultimately show ?thesis by (simp add: strict_sorted_iff)
qed

lemma order_rows_keys: "map sort_row (order_rows E req) = map sort_row (sorted_rows E req)"
  unfolding order_rows_def by (rule rank_rows_map) (simp add: sort_row_def)

lemma not_deferred_ids: "map or_challenge_id (not_deferred (order_rows E req)) = map or_challenge_id (not_deferred (sorted_rows E req))"
  "map or_budget_s (not_deferred (order_rows E req)) = map or_budget_s (not_deferred (sorted_rows E req))"
proof -
  have *: "map f (not_deferred (rank_rows remaining dials rows)) = map f (not_deferred rows)"
    if f: "\<And>r i b. f (r\<lparr>or_rank := i, or_committed := b\<rparr>) = f r" for f :: "OrderRow \<Rightarrow> 'z" and remaining dials rows
  proof -
    have "map (\<lambda>r. (or_deferred_reason r, f r)) (rank_rows remaining dials rows) = map (\<lambda>r. (or_deferred_reason r, f r)) rows"
      by (rule rank_rows_map) (simp add: f)
    moreover have "map f (not_deferred xs) = map snd (filter (\<lambda>p. fst p = '''') (map (\<lambda>r. (or_deferred_reason r, f r)) xs))" for xs
      by (induction xs) (simp_all add: not_deferred_def)
    ultimately show ?thesis by simp
  qed
  show "map or_challenge_id (not_deferred (order_rows E req)) = map or_challenge_id (not_deferred (sorted_rows E req))"
    "map or_budget_s (not_deferred (order_rows E req)) = map or_budget_s (not_deferred (sorted_rows E req))"
    unfolding order_rows_def by (rule *, simp)+
qed

lemma affordable_order_rows:
  "affordable remaining dials (order_rows E req) = affordable remaining dials (sorted_rows E req)"
  by (simp only: affordable_def not_deferred_ids)

lemma remaining_le_cutoff:
  assumes "order_valid req"
  shows "remaining_seconds (oi_run req) * 1000000 \<le> rf_final_submission_cutoff (oi_run req) - rf_boundary_at (oi_run req)"
proof -
  have "0 \<le> rf_final_submission_cutoff (oi_run req) - rf_boundary_at (oi_run req)"
    using assms by (simp add: order_valid_def Let_def)
  then show ?thesis
    using trunc_seconds_le by (auto simp: remaining_seconds_def max_def)
qed

lemma affordable_bound:
  assumes "0 < attempts_affordable seconds lengths floor_s"
  shows "floor_s \<le> seconds \<and> lengths \<noteq> []"
  using assms by (auto simp: attempts_affordable_def split: if_splits)

lemma affordable_fits:
  assumes "1 < attempts_affordable seconds lengths floor_s" "0 < sum_list lengths"
  shows "attempts_affordable seconds lengths floor_s * sum_list lengths \<le> seconds * int (length lengths)"
proof -
  let ?n = "attempts_affordable seconds lengths floor_s" and ?s = "sum_list lengths" and ?l = "int (length lengths)"
  have l: "0 < ?l" using affordable_bound [of seconds lengths floor_s] assms(1) by simp
  have mean: "Fract ?s ?l = of_int ?s / of_int ?l" by (simp add: Fract_of_int_quotient)
  have "?n = \<lfloor>of_int seconds / Fract ?s ?l :: rat\<rfloor>"
    using assms(1) unfolding attempts_affordable_def by (auto simp: max_def split: if_splits)
  then have "of_int ?n \<le> (of_int seconds / Fract ?s ?l :: rat)" by (simp add: le_floor_iff)
  then have "(of_int ?n * of_int ?s :: rat) \<le> of_int seconds * of_int ?l"
    unfolding mean using assms(2) l by (simp add: field_simps)
  then show ?thesis by (simp only: of_int_mult [symmetric] of_int_le_iff)
qed

lemma floor_le: "pd_floor_seconds dials \<le> length_of_tier t dials"
  by (simp add: length_of_tier_def)

lemma order_valid_floor: "order_valid req \<Longrightarrow> 0 < pd_floor_seconds (oi_dials req)"
  by (simp add: order_valid_def Let_def)

lemma committed_not_deferred:
  assumes "order_valid req" "r \<in> set (order_rows E req)" "or_committed r"
  shows "or_deferred_reason r = ''''"
proof -
  obtain i where i: "i < length (sorted_rows E req)" "r = order_rows E req ! i"
    using assms(2) by (auto simp: in_set_conv_nth order_rows_def)
  let ?s = "sorted_rows E req ! i"
  have r: "or_deferred_reason r = or_deferred_reason ?s" using i by (simp add: order_rows_def rank_rows_nth)
  obtain q where q: "q \<in> set (not_deferred (sorted_rows E req))" "or_challenge_id q = or_challenge_id ?s"
    using assms(3) i by (auto simp: order_rows_def rank_rows_nth dest: in_set_takeD)
  have "q \<in> set (sorted_rows E req)" "or_deferred_reason q = ''''" using q(1) by (simp_all add: not_deferred_def)
  moreover have "?s \<in> set (sorted_rows E req)" using i(1) by simp
  ultimately have "q = ?s"
    using sorted_rows_distinct [OF assms(1), of E] q(2) unfolding distinct_map by (meson inj_onD)
  then show ?thesis using r \<open>or_deferred_reason q = ''''\<close> by simp
qed

lemma grantable_committed:
  assumes "order_valid req"
  shows "grantable False (order_rows E req) = filter or_committed (order_rows E req)"
  unfolding grantable_def using committed_not_deferred [OF assms] by (intro filter_cong) auto

section \<open>A concrete boundary\<close>

definition order_env :: env where
  "order_env = \<lparr>sha_json = (\<lambda>_. ''d''), sha_bytes = (\<lambda>_. ''d''), py_repr = (\<lambda>_. ''r'')\<rparr>"

definition demo_challenge :: "int \<Rightarrow> int \<Rightarrow> ChallengeSnapshot" where
  "demo_challenge k v =
     \<lparr>cs_challenge_id = TypedInt k, cs_name = ''n'', cs_category = ''web'', cs_challenge_type = ''standard'',
      cs_statement = '''', cs_value = \<lparr>vf_value = JInt v, vf_outcome = ''answered''\<rparr>,
      cs_solves = \<lparr>vf_value = JInt 0, vf_outcome = ''answered''\<rparr>,
      cs_solved = \<lparr>vf_value = JBool False, vf_outcome = ''answered''\<rparr>,
      cs_position = \<lparr>pv_state = ''missing'', pv_value = JNull\<rparr>,
      cs_shared = \<lparr>pv_state = ''missing'', pv_value = JNull\<rparr>, cs_revision_digest = ''r''\<rparr>"

definition demo_snapshot :: IntakeSnapshot where
  "demo_snapshot =
     \<lparr>is_profile_digest = ''p'', is_observed_at = 0, is_challenges = [demo_challenge 1 100, demo_challenge 2 300],
      is_scoreboard = [], is_digest = ''s''\<rparr>"

definition demo_run :: "AdmissionFact list \<Rightarrow> OrderRunFacts" where
  "demo_run admission =
     \<lparr>rf_boundary_id = ''b'', rf_boundary_at = 1000000, rf_final_submission_cutoff = 2401000000,
      rf_window_seconds = 3600, rf_next_generation = 1, rf_window_digest = '''',
      rf_generation_projection_digest = '''', rf_intake_event_digest = '''', rf_submission_tail_seconds = 0,
      rf_boundary_clock_event_digest = '''', rf_leased = [], rf_solved = [], rf_active_grants = [],
      rf_attempts = [], rf_prior_crowd = [], rf_durable_tiers = [], rf_admission = admission,
      rf_prior_order_fence = \<lparr>fe_publication_id = '''', fe_decision_digest = '''', fe_boundary_event_digest = ''''\<rparr>,
      rf_boundary_fact_event_digest = '''', rf_final_chance_available = False\<rparr>"

definition demo_order :: "AdmissionFact list \<Rightarrow> OrderInput" where
  "demo_order admission =
     \<lparr>oi_authority =
        \<lparr>oa_snapshot = demo_snapshot,
         oa_fence = \<lparr>pf_profile_digest = ''p'', pf_event_id = ''e'', pf_event_digest = ''f'', pf_snapshot_digest = ''s''\<rparr>,
         oa_history = [], oa_effective_max_challenges = 10,
         oa_crowd_source = \<lparr>cw_structurally_trusted = False, cw_synthetic = False, cw_control_digest = ''c''\<rparr>\<rparr>,
      oi_run = demo_run admission, oi_dials = default_dials\<rparr>"

lemma demo_valid: "order_valid (demo_order [])" by code_simp

lemma demo_rows:
  "map (\<lambda>r. (or_challenge_id r, or_final_tier r, or_budget_s r, or_committed r)) (order_rows order_env (demo_order []))
    = [(TypedInt 2, 2, 600, True), (TypedInt 1, 2, 600, True)]"
  by code_simp

lemma demo_grant:
  "map_option (\<lambda>g. (ag_challenge_id g, ag_budget_s g, ag_deadline g))
     (fst (decide_grant (oi_run (demo_order [])) default_dials 2400 (order_rows order_env (demo_order []))))
    = Some (TypedInt 2, 600, 601000000)"
  by code_simp

lemma demo_decides: "decide_order order_env (demo_order []) = Inr (decision_of order_env (demo_order []))"
  unfolding decide_order_eq using demo_valid by (simp only: if_True)

section \<open>Properties\<close>


text \<open>C11. The rows rank the whole population: every unsolved deployable Challenge has exactly one row,
  the ranks are 1 to n, and the keys (demotion, value, tie-break) increase strictly, so the ranking
  does not depend on how the sort treats equal keys.\<close>

theorem order_rows_ranked:
  assumes "decide_order E req = Inr d"
  shows "mset (map or_challenge_id (od_rows d)) = mset (ids_of (order_pop req))
    \<and> distinct (map or_challenge_id (od_rows d))
    \<and> map or_rank (od_rows d) = map int [1..<Suc (length (od_rows d))]
    \<and> sorted_wrt (<) (map sort_row (od_rows d))"
proof -
  have v: "order_valid req" and d: "od_rows d = order_rows E req"
    using decide_order_Inr [OF assms] by (simp_all add: decision_of_def Let_def)
  show ?thesis
    unfolding d order_rows_keys order_rows_ids
    using sorted_rows_ids sorted_rows_distinct [OF v] sorted_rows_strict [OF v] rank_rows_ranks
    by (simp add: order_rows_def del: upt_Suc)
qed

theorem order_rows_ranked_witness:
  "map or_challenge_id (od_rows (decision_of order_env (demo_order []))) = [TypedInt 2, TypedInt 1]
    \<and> sorted_wrt (<) (map sort_row (od_rows (decision_of order_env (demo_order []))))"
proof -
  have "map or_challenge_id (order_rows order_env (demo_order [])) = [TypedInt 2, TypedInt 1]" by code_simp
  then show ?thesis
    using order_rows_ranked [OF demo_decides] by (simp add: decision_of_def Let_def)
qed

text \<open>C12. Every row is in range: its Tier is 1 to 4, its budget is never below the floor, and every
  component of its value is between 0 and 1 when the recorded attempts have non-negative counts.\<close>

theorem order_row_bounds:
  assumes "decide_order E req = Inr d" "counts_ok (rf_attempts (oi_run req))" "r \<in> set (od_rows d)"
  shows "1 \<le> or_final_tier r \<and> or_final_tier r \<le> 4 \<and> pd_floor_seconds (oi_dials req) \<le> or_budget_s r
    \<and> unit_components (or_components r) \<and> or_order_value r = order_value (oi_dials req) (or_components r)"
proof -
  have v: "order_valid req" and "od_rows d = order_rows E req"
    using decide_order_Inr [OF assms(1)] by (simp_all add: decision_of_def Let_def)
  then obtain c i b where c: "c \<in> set (order_pop req)"
    and r: "r = (row_of (order_facts E req) c)\<lparr>or_rank := i, or_committed := b\<rparr>"
    using assms(3) order_rows_row [of r E req] by metis
  have "or_order_value (row_of fs c) = order_value (rw_dials fs) (or_components (row_of fs c))" for fs
    by (simp add: row_of_def build_row_def Let_def)
  then show ?thesis
    using floor_le row_of_tier row_of_components [OF v assms(2) c] by (simp add: r)
qed

theorem order_row_bounds_witness:
  "\<exists>r. r \<in> set (od_rows (decision_of order_env (demo_order []))) \<and> or_challenge_id r = TypedInt 2
     \<and> 1 \<le> or_final_tier r \<and> or_final_tier r \<le> 4 \<and> unit_components (or_components r)"
proof -
  have counts: "counts_ok (rf_attempts (oi_run (demo_order [])))" by code_simp
  have "map or_challenge_id (order_rows order_env (demo_order [])) = [TypedInt 2, TypedInt 1]" by code_simp
  then have "TypedInt 2 \<in> or_challenge_id ` set (od_rows (decision_of order_env (demo_order [])))"
    unfolding set_map [symmetric] by (simp add: decision_of_def Let_def del: set_map)
  then obtain r where "r \<in> set (od_rows (decision_of order_env (demo_order [])))" "or_challenge_id r = TypedInt 2"
    by auto
  then show ?thesis using order_row_bounds [OF demo_decides counts] by blast
qed

text \<open>C13. The working set is the affordable prefix: the committed Challenges are the first rows that
  are not deferred, as many as the remaining time affords at their mean budget; nothing is committed
  once less than the floor remains, and more than one Challenge is committed only if their mean
  budgets fit into the remaining time.\<close>

theorem working_set_affordable:
  assumes "decide_order E req = Inr d"
  defines "avail \<equiv> not_deferred (od_rows d)" and "remaining \<equiv> remaining_seconds (oi_run req)"
  defines "n \<equiv> affordable remaining (oi_dials req) (od_rows d)"
  shows "od_working_set d = take n (map or_challenge_id avail)
    \<and> (n = 0 \<or> pd_floor_seconds (oi_dials req) \<le> remaining)
    \<and> (n \<le> 1 \<or> int n * sum_list (map or_budget_s avail) \<le> remaining * int (length avail))"
proof -
  have v: "order_valid req" and d: "od_rows d = order_rows E req"
    "od_working_set d = map or_challenge_id (filter or_committed (order_rows E req))"
    using decide_order_Inr [OF assms(1)] by (simp_all add: decision_of_def Let_def)
  let ?aff = "attempts_affordable remaining (map or_budget_s avail) (pd_floor_seconds (oi_dials req))"
  have n: "n = nat ?aff" by (simp add: n_def affordable_def avail_def)
  have "od_working_set d = map or_challenge_id (take n (not_deferred (sorted_rows E req)))"
    using rank_rows_committed [OF sorted_rows_distinct [OF v]]
    by (simp add: d order_rows_def n_def remaining_def affordable_order_rows [unfolded order_rows_def])
  then have "od_working_set d = take n (map or_challenge_id avail)"
    by (simp only: take_map avail_def d not_deferred_ids)
  moreover have "n = 0 \<or> pd_floor_seconds (oi_dials req) \<le> remaining"
    using affordable_bound [of remaining "map or_budget_s avail" "pd_floor_seconds (oi_dials req)"] n
    by (cases "0 < ?aff") simp_all
  moreover have "int n * sum_list (map or_budget_s avail) \<le> remaining * int (length avail)" if "\<not> n \<le> 1"
  proof -
    have aff: "1 < ?aff" "int n = ?aff" using that n by simp_all
    have pos: "0 < or_budget_s r" if "r \<in> set avail" for r
    proof -
      have "r \<in> set (order_rows E req)" using that by (simp add: avail_def d not_deferred_def)
      then obtain c i b where "r = (row_of (order_facts E req) c)\<lparr>or_rank := i, or_committed := b\<rparr>"
        by (rule order_rows_row)
      then show ?thesis using floor_le [of "oi_dials req"] order_valid_floor [OF v] by (simp add: less_le_trans)
    qed
    have "avail \<noteq> []" using affordable_bound [of remaining "map or_budget_s avail" "pd_floor_seconds (oi_dials req)"] aff(1) by simp
    then obtain r rs where rs: "avail = r # rs" by (cases "avail") simp_all
    have "0 \<le> sum_list (map or_budget_s rs)" using pos rs by (intro sum_list_nonneg) force
    then have "0 < sum_list (map or_budget_s avail)" using pos [of r] rs by simp
    then show ?thesis using affordable_fits [OF aff(1)] unfolding aff(2) by simp
  qed
  ultimately show ?thesis by blast
qed

theorem working_set_affordable_witness:
  "\<exists>n. od_working_set (decision_of order_env (demo_order []))
       = take n (map or_challenge_id (not_deferred (od_rows (decision_of order_env (demo_order [])))))
     \<and> od_working_set (decision_of order_env (demo_order [])) = [TypedInt 2, TypedInt 1]"
proof -
  have "map or_challenge_id (filter or_committed (order_rows order_env (demo_order []))) = [TypedInt 2, TypedInt 1]"
    by code_simp
  then show ?thesis
    using working_set_affordable [OF demo_decides] by (auto simp: decision_of_def Let_def)
qed

text \<open>C14. A grant is safe: it goes to a ranked Challenge that is neither solved, deferred nor already
  granted, while fewer grants than the concurrency are active; its budget is positive and it ends
  before the final submission cutoff and before the safe deadline of that Challenge.\<close>

theorem grant_safe:
  assumes "decide_order E req = Inr d" "od_grant d = Some g"
  shows "ag_challenge_id g \<in> set (map or_challenge_id (not_deferred (od_rows d)))
    \<and> ag_challenge_id g \<notin> set (rf_solved (oi_run req))
    \<and> ag_challenge_id g \<notin> ag_challenge_id ` set (rf_active_grants (oi_run req))
    \<and> int (length (rf_active_grants (oi_run req))) < pd_concurrency (oi_dials req)
    \<and> 0 < ag_budget_s g \<and> 1 \<le> ag_tier g \<and> ag_tier g \<le> 4
    \<and> ag_deadline g \<le> rf_final_submission_cutoff (oi_run req)
    \<and> (\<forall>t. Option.bind (admission_of (oi_run req) (ag_challenge_id g)) ad_safe_deadline = Some t
         \<longrightarrow> ag_deadline g \<le> t)"
proof -
  let ?run = "oi_run req" and ?rem = "remaining_seconds (oi_run req)"
  have v: "order_valid req" and d: "od_rows d = order_rows E req"
    "od_grant d = fst (decide_grant ?run (oi_dials req) ?rem (order_rows E req))"
    using decide_order_Inr [OF assms(1)] by (simp_all add: decision_of_def Let_def)
  obtain r fc where r: "int (length (rf_active_grants ?run)) < pd_concurrency (oi_dials req)"
    "r \<in> set (order_rows E req)" "or_deferred_reason r = ''''" "make_grant ?run (oi_dials req) ?rem fc r = Some g"
    using decide_grant_Some assms(2) unfolding d(2) by metis
  note g = make_grant_Some [OF r(4)]
  obtain c i b where c: "c \<in> set (order_pop req)"
    and rc: "r = (row_of (order_facts E req) c)\<lparr>or_rank := i, or_committed := b\<rparr>"
    using order_rows_row [OF r(2)] by metis
  have id: "ag_challenge_id g = cs_challenge_id c" using g(1) by (simp add: rc)
  have pos: "0 < ag_budget_s g" using g(6) order_valid_floor [OF v] by auto
  have "cs_challenge_id c \<notin> set (rf_solved ?run)" using c by (simp add: order_pop_def population_def)
  moreover have "deferred_reason ?run (oi_dials req) (cs_challenge_id c) = ''''" using r(3) by (simp add: rc)
  then have "cs_challenge_id c \<notin> ag_challenge_id ` set (rf_active_grants ?run)"
    unfolding deferred_reason_def Let_def by (auto split: if_splits)
  moreover have "1 \<le> ag_tier g \<and> ag_tier g \<le> 4" using g(2) row_of_tier by (simp add: rc)
  moreover have "ag_deadline g \<le> rf_final_submission_cutoff ?run"
    using g(3,5) remaining_le_cutoff [OF v] by linarith
  moreover have "ag_deadline g \<le> t" if "Option.bind (admission_of ?run (ag_challenge_id g)) ad_safe_deadline = Some t" for t
  proof -
    have "ag_budget_s g \<le> trunc_seconds (t - rf_boundary_at ?run)" using g(7) that by (simp add: g(1))
    then show ?thesis using trunc_seconds_pos [of "t - rf_boundary_at ?run"] pos g(3) by linarith
  qed
  moreover have "ag_challenge_id g \<in> set (map or_challenge_id (not_deferred (od_rows d)))"
    using r(2,3) g(1) by (auto simp: d not_deferred_def)
  ultimately show ?thesis using r(1) pos unfolding id by blast
qed

theorem grant_safe_witness:
  "\<exists>g. od_grant (decision_of order_env (demo_order [])) = Some g \<and> ag_challenge_id g = TypedInt 2
     \<and> 0 < ag_budget_s g \<and> ag_deadline g \<le> 2401000000"
proof -
  have "map_option ag_challenge_id (fst (decide_grant (oi_run (demo_order [])) (oi_dials (demo_order []))
      (remaining_seconds (oi_run (demo_order []))) (order_rows order_env (demo_order [])))) = Some (TypedInt 2)"
    by code_simp
  then obtain g where g: "od_grant (decision_of order_env (demo_order [])) = Some g" "ag_challenge_id g = TypedInt 2"
    by (auto simp only: map_option_eq_Some decision_of_def Let_def OrderDecision.simps)
  moreover have "rf_final_submission_cutoff (oi_run (demo_order [])) = 2401000000" by code_simp
  ultimately show ?thesis using grant_safe [OF demo_decides g(1)] by auto
qed



text \<open>C16. The percentile loop computes mid-ranks: every velocity gets the share of the others that are
  slower, counting equals half, and a lone velocity gets one half.\<close>

theorem percentiles_mid_rank:
  assumes "map_of velocities k = Some v"
  shows "map_of (percentiles velocities) k =
    Some (if length velocities = 1 then 1 / 2
      else (of_nat (below (map snd velocities) v) + (of_nat (count_list (map snd velocities) v) - 1) / 2)
        / of_nat (length velocities - 1))"
proof -
  have "velocities \<noteq> []" using assms by auto
  then have "length velocities \<noteq> 1 \<Longrightarrow> (of_int (2 * (int (length velocities) - 1)) :: rat) = 2 * of_nat (length velocities - 1)"
    by (cases velocities) simp_all
  moreover have "(2 * x + y - 1) / (2 * n) = (x + (y - 1) / 2) / n" for x y n :: rat
    by (simp add: field_simps)
  ultimately show ?thesis
    unfolding percentiles_lookup [OF assms] mid_rank_def by (simp add: Fract_of_int_quotient)
qed

theorem percentiles_mid_rank_witness:
  "map_of (percentiles [(TypedInt 1, 1), (TypedInt 2, 3), (TypedInt 3, 3)]) (TypedInt 2) = Some (3 / 4)"
proof -
  let ?v = "[(TypedInt 1, 1), (TypedInt 2, 3), (TypedInt 3, 3 :: rat)]"
  have "map_of ?v (TypedInt 2) = Some 3" by simp
  from percentiles_mid_rank [OF this] show ?thesis by (simp add: below_def)
qed

definition forbidden :: "AdmissionFact list" where
  "forbidden =
     [\<lparr>ad_challenge_id = TypedInt 2, ad_admissible = False, ad_reason = '''', ad_evidence_digest = ''e'',
       ad_safe_deadline = None\<rparr>]"


end
