(* ===== verification/Stall.thy ===== *)
theory Stall
  imports Triage Civil_Time
begin

text \<open>
  \<open>solver/stall.py\<close>: when an Attempt ends.  The kill deadline (\<open>Deadline\<close>), the watch over one
  Attempt's Steps (\<open>Watch\<close>) and the breaker over barren Attempts (\<open>Breaker\<close>).  Text is ASCII; an
  instant is in microseconds and a length of time in seconds is a \<open>rat\<close> that \<open>timedelta\<close> rounds to
  microseconds, half to even.  A cause is an option, \<open>None\<close> for the empty string; the confirmation
  callback of a Watch is the argument \<open>confirms\<close> of the Step that calls it.
\<close>

section \<open>Reading commands and prose\<close>

definition rstrip_by :: "(char \<Rightarrow> bool) \<Rightarrow> string \<Rightarrow> string" where
  "rstrip_by P s = rev (dropWhile P (rev s))"

definition py_strip :: "string \<Rightarrow> string" where
  "py_strip s = rstrip_by is_space (dropWhile is_space s)"

definition lower_letter :: "char \<Rightarrow> bool" where
  "lower_letter c = (97 \<le> char_code c \<and> char_code c \<le> 122)"

definition upper_char :: "char \<Rightarrow> char" where
  "upper_char c = (if lower_letter c then char_of (char_code c - 32) else c)"

definition starts_with :: "string \<Rightarrow> string \<Rightarrow> bool" where
  "starts_with p s = (take (length p) s = p)"

definition ends_with :: "string \<Rightarrow> string \<Rightarrow> bool" where
  "ends_with p s = starts_with (rev p) (rev s)"

definition contains :: "string \<Rightarrow> string \<Rightarrow> bool" where
  "contains p s = list_ex (\<lambda>i. starts_with p (drop i s)) [0..<Suc (length s)]"

text \<open>\<open>MARKED\<close>: \<open>^\[[a-z][a-z-]*\] \<close>\<close>

definition marked :: "string \<Rightarrow> bool" where
  "marked s =
     (case s of
        b # c # rest \<Rightarrow> b = CHR ''['' \<and> lower_letter c
          \<and> starts_with ''] '' (dropWhile (\<lambda>d. lower_letter d \<or> d = CHR ''-'') rest)
      | _ \<Rightarrow> False)"

text \<open>\<open>SHELL\<close>: the leading word ends in \<open>sh\<close>, the next is \<open>-\<close>, lower-case letters and a final \<open>c\<close>,
  and white space follows it.  Every alternative of the pattern ends in \<open>sh\<close>.\<close>

definition unshell :: "string \<Rightarrow> string" where
  "unshell s =
     (let solid = (\<lambda>c. \<not> is_space c); word = takeWhile solid s; after = dropWhile is_space (dropWhile solid s);
          opt = takeWhile solid after; rest = dropWhile solid after
      in if ends_with ''sh'' word \<and> starts_with ''-'' opt \<and> list_all lower_letter (tl opt) \<and> ends_with ''c'' (tl opt)
            \<and> rest \<noteq> []
         then dropWhile is_space rest else s)"

definition unquote :: "string \<Rightarrow> string" where
  "unquote s =
     (if 1 < length s \<and> hd s = last s \<and> (hd s = CHR 39 \<or> hd s = CHR 34) then butlast (tl s) else s)"

definition normalise :: "string \<Rightarrow> string" where
  "normalise command =
     py_strip (rstrip_by (\<lambda>c. c = CHR '';'') (join_space (words (unquote (unshell (py_strip command))))))"

definition replayable :: "string \<Rightarrow> bool" where
  "replayable command = (py_strip command \<noteq> [] \<and> \<not> marked command)"

definition IMPOSSIBLE_SAYS :: "string list" where
  "IMPOSSIBLE_SAYS =
     [''this is impossible'', ''this challenge is impossible'', ''cannot be solved'', ''unsolvable'', ''i give up'']"

definition declared :: "string \<Rightarrow> bool" where
  "declared prose =
     list_ex (\<lambda>line. starts_with ''UNWINNABLE:'' (map upper_char (dropWhile is_space line))) (answer_lines prose)"

section \<open>Thresholds and the deadline\<close>

datatype cut = CUT_BUDGET | CUT_INSTANCE_EXPIRED | CUT_NOVELTY | CUT_REPETITION
  | CUT_SELF_REPORTED_IMPOSSIBLE | CUT_STEP_CLIFF

record Thresholds =
  th_repeats :: int
  th_novelty :: int
  th_cliff :: int
  th_extensions :: int
  th_extension_seconds :: rat
  th_impossible :: "string list"

definition default_thresholds :: Thresholds where
  "default_thresholds =
     \<lparr>th_repeats = 1, th_novelty = 5, th_cliff = 25, th_extensions = 3, th_extension_seconds = 120,
      th_impossible = IMPOSSIBLE_SAYS\<rparr>"

text \<open>\<open>timedelta(seconds=s)\<close> in microseconds, rounded half to even.\<close>

definition timedelta :: "rat \<Rightarrow> int" where
  "timedelta s =
     (let x = s * 1000000; n = \<lfloor>x\<rfloor>; r = x - of_int n
      in if r < 1 / 2 \<or> r = 1 / 2 \<and> even n then n else n + 1)"

record Deadline =
  dl_budget :: int
  dl_instance :: "int option"
  dl_granted :: int
  dl_sealed :: bool
  dl_base_budget :: int

definition new_deadline :: "int \<Rightarrow> int option \<Rightarrow> Deadline" where
  "new_deadline budget inst =
     \<lparr>dl_budget = budget, dl_instance = inst, dl_granted = 0, dl_sealed = False, dl_base_budget = budget\<rparr>"

definition at_time :: "Deadline \<Rightarrow> int" where
  "at_time d = (case dl_instance d of None \<Rightarrow> dl_budget d | Some i \<Rightarrow> min (dl_budget d) i)"

definition left :: "Deadline \<Rightarrow> int \<Rightarrow> int" where
  "left d now = at_time d - now"

definition spent :: "Deadline \<Rightarrow> int \<Rightarrow> cut option" where
  "spent d now =
     (if left d now > 0 then None
      else case dl_instance d of
        Some i \<Rightarrow> if i \<le> dl_budget d then Some CUT_INSTANCE_EXPIRED else Some CUT_BUDGET
      | None \<Rightarrow> Some CUT_BUDGET)"

definition extend_deadline :: "rat \<Rightarrow> int \<Rightarrow> Deadline \<Rightarrow> bool \<times> Deadline" where
  "extend_deadline seconds cap d =
     (if dl_sealed d \<or> dl_granted d \<ge> cap then (False, d)
      else (True, d\<lparr>dl_budget := dl_budget d + timedelta seconds, dl_granted := dl_granted d + 1\<rparr>))"

definition apply_epochs :: "int \<Rightarrow> rat \<Rightarrow> int \<Rightarrow> Deadline \<Rightarrow> Deadline" where
  "apply_epochs epochs seconds cap d =
     (if dl_sealed d then d
      else let granted = min (max epochs 0) cap
           in d\<lparr>dl_granted := granted, dl_budget := dl_base_budget d + timedelta (seconds * of_int granted)\<rparr>)"

definition shorten :: "int \<Rightarrow> Deadline \<Rightarrow> Deadline" where
  "shorten t d = d\<lparr>dl_budget := min (dl_budget d) t, dl_sealed := True\<rparr>"

section \<open>The watch\<close>

type_synonym answer = "int option \<times> string"

record Checkpoint =
  ck_before :: "int option"
  ck_after :: "int option"
  ck_replay :: string
  ck_evidence_digest :: string

record Tried =
  td_command :: string
  td_exit_code :: "int option"

record Confirmation =
  cf_accepted :: bool
  cf_newly_recorded :: bool

record Watch =
  wa_deadline :: Deadline
  wa_thresholds :: Thresholds
  wa_steps :: int
  wa_checkpoints :: "Checkpoint list"
  wa_tried :: "Tried list"
  wa_last :: string
  wa_answered :: "(string \<times> answer) list"
  wa_candidates :: "(string \<times> answer \<times> Checkpoint) list"
  wa_digests :: "string list"
  wa_repeats :: "(string \<times> int) list"
  wa_stale :: int
  wa_impossible :: bool

definition new_watch :: "Deadline \<Rightarrow> Thresholds \<Rightarrow> Watch" where
  "new_watch d th =
     \<lparr>wa_deadline = d, wa_thresholds = th, wa_steps = 0, wa_checkpoints = [], wa_tried = [], wa_last = '''',
      wa_answered = [], wa_candidates = [], wa_digests = [], wa_repeats = [], wa_stale = 0, wa_impossible = False\<rparr>"

text \<open>\<open>moved\<close> is the sentence that names the two exit codes and the command, so a Checkpoint keeps
  those; \<open>_digests\<close> is a set, kept as the list of its elements.\<close>

definition novelty :: "string \<Rightarrow> Watch \<Rightarrow> Watch" where
  "novelty digest w =
     (if digest \<noteq> '''' \<and> digest \<notin> set (wa_digests w)
      then w\<lparr>wa_digests := digest # wa_digests w, wa_stale := 0\<rparr>
      else w\<lparr>wa_stale := wa_stale w + 1\<rparr>)"

definition repeat_command :: "string \<Rightarrow> int option \<Rightarrow> bool \<Rightarrow> Watch \<Rightarrow> Watch" where
  "repeat_command key code repeated w =
     (let w' = (if repeated
            then w\<lparr>wa_repeats := dict_set key
              ((case map_of (wa_repeats w) key of None \<Rightarrow> 0 | Some n \<Rightarrow> n) + 1) (wa_repeats w)\<rparr> else w)
      in w'\<lparr>wa_tried := filter (\<lambda>e. td_command e \<noteq> key) (wa_tried w') @ [\<lparr>td_command = key, td_exit_code = code\<rparr>]\<rparr>)"

definition confirmed :: "(Checkpoint \<Rightarrow> Confirmation) option \<Rightarrow> Checkpoint \<Rightarrow> Watch \<Rightarrow> Watch" where
  "confirmed confirms cp w =
     (let answer = (case confirms of None \<Rightarrow> \<lparr>cf_accepted = True, cf_newly_recorded = True\<rparr> | Some f \<Rightarrow> f cp) in
      if \<not> cf_accepted answer then w
      else let w' = (if cf_newly_recorded answer then w\<lparr>wa_checkpoints := wa_checkpoints w @ [cp]\<rparr> else w);
               w'' = w'\<lparr>wa_tried := [], wa_repeats := [], wa_stale := 0, wa_steps := 0\<rparr>
           in if confirms = None
              then w''\<lparr>wa_deadline := snd (extend_deadline (th_extension_seconds (wa_thresholds w))
                (th_extensions (wa_thresholds w)) (wa_deadline w''))\<rparr>
              else w'')"

definition unconfirmed :: "string \<Rightarrow> answer \<Rightarrow> answer option \<Rightarrow> Watch \<Rightarrow> Watch" where
  "unconfirmed key ans before w =
     (case before of
        None \<Rightarrow> repeat_command key (fst ans) False w
      | Some b \<Rightarrow>
          if b = ans then repeat_command key (fst ans) True w
          else w\<lparr>wa_candidates := dict_set key
            (ans, \<lparr>ck_before = fst b, ck_after = fst ans, ck_replay = key, ck_evidence_digest = snd ans\<rparr>)
            (wa_candidates w)\<rparr>)"

definition observed :: "(Checkpoint \<Rightarrow> Confirmation) option \<Rightarrow> string \<Rightarrow> int option \<Rightarrow> string \<Rightarrow> Watch
    \<Rightarrow> Checkpoint option \<times> Watch" where
  "observed confirms command code digest w0 =
     (let w1 = novelty digest (w0\<lparr>wa_steps := wa_steps w0 + 1\<rparr>) in
      if \<not> replayable command then (None, w1)
      else
        let key = normalise command;
            ans = (code, digest);
            before = map_of (wa_answered w1) key;
            w2 = w1\<lparr>wa_last := command, wa_answered := dict_set key ans (wa_answered w1)\<rparr>
        in case map_of (wa_candidates w2) key of
             Some (cand, cp) \<Rightarrow>
               if cand = ans
               then (Some cp, confirmed confirms cp (w2\<lparr>wa_candidates := dict_del key (wa_candidates w2)\<rparr>))
               else (None, unconfirmed key ans before w2)
           | None \<Rightarrow> (None, unconfirmed key ans before w2))"

definition said :: "string \<Rightarrow> int \<Rightarrow> Watch \<Rightarrow> bool \<times> Watch" where
  "said prose now w =
     (if \<not> declared prose \<and> \<not> list_ex (\<lambda>p. contains p (map lower_char prose)) (th_impossible (wa_thresholds w))
      then (False, w)
      else (True, w\<lparr>wa_impossible := True, wa_deadline := shorten now (wa_deadline w)\<rparr>))"

definition cause :: "Watch \<Rightarrow> int \<Rightarrow> cut option" where
  "cause w now =
     (if wa_impossible w then Some CUT_SELF_REPORTED_IMPOSSIBLE
      else if (if wa_repeats w = [] then 0 else Max (set (map snd (wa_repeats w)))) \<ge> th_repeats (wa_thresholds w)
      then Some CUT_REPETITION
      else if wa_stale w \<ge> th_novelty (wa_thresholds w) then Some CUT_NOVELTY
      else if wa_steps w \<ge> th_cliff (wa_thresholds w) then Some CUT_STEP_CLIFF
      else spent (wa_deadline w) now)"

section \<open>The breaker\<close>

record Breaker =
  br_limit :: int
  br_base_seconds :: rat
  br_cap_seconds :: rat
  br_barren :: "(string \<times> int) list"
  br_streak :: "string list"

definition new_breaker :: "int \<Rightarrow> rat \<Rightarrow> rat \<Rightarrow> Breaker" where
  "new_breaker limit base cap =
     \<lparr>br_limit = limit, br_base_seconds = base, br_cap_seconds = cap, br_barren = [], br_streak = []\<rparr>"

text \<open>\<open>Breaker.closed\<close> answers whether the Attempt is recorded as crashed.\<close>

definition attempt_closed :: "string \<Rightarrow> int \<Rightarrow> Breaker \<Rightarrow> bool \<times> Breaker" where
  "attempt_closed challenge steps b =
     (if steps \<noteq> 0 then (False, b\<lparr>br_barren := dict_del challenge (br_barren b), br_streak := []\<rparr>)
      else let count = (case map_of (br_barren b) challenge of None \<Rightarrow> 0 | Some n \<Rightarrow> n) + 1
           in (count \<ge> br_limit b,
               b\<lparr>br_streak := br_streak b @ [challenge], br_barren := dict_set challenge count (br_barren b)\<rparr>))"

text \<open>A float times the int \<open>2 ** k\<close> converts the int first, which raises from \<open>2 ** 1024\<close> on; a
  product beyond the largest float is infinite and the cap takes over, as it does here.\<close>

definition backoff :: "Breaker \<Rightarrow> rat res" where
  "backoff b =
     (let k = length (br_streak b) - 2 in
      if card (set (br_streak b)) < 2 then Inr 0
      else if k \<ge> 1024 then Inl OverflowError
      else Inr (min (br_cap_seconds b) (br_base_seconds b * 2 ^ k)))"

end
