(* ===== verification/Stall_Properties.thy ===== *)
theory Stall_Properties
  imports Stall
begin

text \<open>
  What the stall call guarantees, over arbitrary sequences of operations: the deadline is bounded and
  a sealed one never moves back, every Attempt ends, a Checkpoint is minted exactly when a changed
  answer is repeated, and the breaker's backoff is bounded until its exponent overflows.
\<close>

section \<open>Sequences of operations\<close>

text \<open>An operation that preserves an invariant preserves it over every sequence of operations.\<close>

locale stepped =
  fixes step :: "'s \<Rightarrow> 'e \<Rightarrow> 's" and inv :: "'s \<Rightarrow> bool"
  assumes inv_step: "inv s \<Longrightarrow> inv (step s e)"
begin

lemma inv_run: "inv s \<Longrightarrow> inv (foldl step s es)"
  by (induction es arbitrary: s) (simp_all add: inv_step)

end

datatype deadline_op = Extend | Epochs int | Shorten int

fun deadline_step :: "rat \<Rightarrow> int \<Rightarrow> Deadline \<Rightarrow> deadline_op \<Rightarrow> Deadline" where
  "deadline_step seconds cap d Extend = snd (extend_deadline seconds cap d)"
| "deadline_step seconds cap d (Epochs n) = apply_epochs n seconds cap d"
| "deadline_step seconds cap d (Shorten t) = shorten t d"

text \<open>An extension of a whole number \<open>u\<close> of microseconds.\<close>

definition us_seconds :: "int \<Rightarrow> rat" where
  "us_seconds u = of_int u / 1000000"

lemma timedelta_us: "timedelta (us_seconds u * of_int n) = u * n"
proof -
  have "us_seconds u * of_int n * 1000000 = of_int (u * n)" by (simp add: us_seconds_def)
  then show ?thesis unfolding timedelta_def Let_def by (simp only: floor_of_int) simp
qed

lemma timedelta_us1: "timedelta (us_seconds u) = u"
  using timedelta_us [of u 1] by simp

definition deadline_ok :: "int \<Rightarrow> int \<Rightarrow> int \<Rightarrow> int option \<Rightarrow> Deadline \<Rightarrow> bool" where
  "deadline_ok u cap base inst d =
     (dl_base_budget d = base \<and> dl_instance d = inst \<and> dl_granted d \<le> max cap 0
      \<and> dl_budget d \<le> base + u * max cap 0 \<and> (dl_sealed d \<or> dl_budget d \<le> base + u * dl_granted d))"

lemma grown_le:
  fixes u :: int
  assumes "0 \<le> u" "g \<le> max cap 0"
  shows "u * g \<le> u * max cap 0"
  using assms by (rule mult_left_mono [rotated])

lemma deadline_step_ok:
  assumes "0 \<le> u" "deadline_ok u cap base inst d"
  shows "deadline_ok u cap base inst (deadline_step (us_seconds u) cap d e)"
proof (cases e)
  case Extend
  show ?thesis
  proof (cases "dl_sealed d \<or> dl_granted d \<ge> cap")
    case True
    then show ?thesis using assms(2) Extend by (simp add: extend_deadline_def)
  next
    case False
    have "dl_granted d + 1 \<le> max cap 0" using False by (simp add: le_max_iff_disj)
    moreover have "dl_budget d + u \<le> base + u * (dl_granted d + 1)"
      using assms(2) False by (simp add: deadline_ok_def distrib_left)
    ultimately show ?thesis
      using assms False Extend grown_le [OF assms(1), of "dl_granted d + 1" cap]
      by (auto simp: extend_deadline_def timedelta_us1 deadline_ok_def)
  qed
next
  case (Epochs n)
  show ?thesis
  proof (cases "dl_sealed d")
    case True
    then show ?thesis using assms(2) Epochs by (simp add: apply_epochs_def)
  next
    case False
    then show ?thesis
      using assms Epochs grown_le [OF assms(1), of "min (max n 0) cap" cap]
      by (simp add: apply_epochs_def Let_def timedelta_us deadline_ok_def)
  qed
next
  case (Shorten t)
  then show ?thesis using assms(2) by (auto simp: shorten_def deadline_ok_def)
qed

lemma new_deadline_ok: "0 \<le> u \<Longrightarrow> deadline_ok u cap base inst (new_deadline base inst)"
  by (simp add: deadline_ok_def new_deadline_def)

lemma deadline_ok_at:
  "deadline_ok u cap base inst d \<Longrightarrow> at_time d \<le> base + u * max cap 0 \<and> (\<forall>i. inst = Some i \<longrightarrow> at_time d \<le> i)"
  by (auto simp: deadline_ok_def at_time_def split: option.split)

text \<open>The interface of a deadline whose extension is not negative: bounded whatever happens to it.\<close>

locale bounded_deadline =
  fixes u cap base :: int and inst :: "int option"
  assumes u_nonneg: "0 \<le> u"

sublocale bounded_deadline \<subseteq> moves: stepped "deadline_step (us_seconds u) cap" "deadline_ok u cap base inst"
  using u_nonneg by unfold_locales (rule deadline_step_ok)

context bounded_deadline
begin

lemma ok_run: "deadline_ok u cap base inst (foldl (deadline_step (us_seconds u) cap) (new_deadline base inst) ops)"
  by (rule moves.inv_run, rule new_deadline_ok, rule u_nonneg)

end

definition sealed_by :: "int \<Rightarrow> Deadline \<Rightarrow> bool" where
  "sealed_by t d = (dl_sealed d \<and> dl_budget d \<le> t)"

interpretation seal: stepped "deadline_step seconds cap" "sealed_by t" for seconds cap t
proof
  fix d e
  assume "sealed_by t d"
  then show "sealed_by t (deadline_step seconds cap d e)"
    by (cases e) (auto simp: sealed_by_def extend_deadline_def apply_epochs_def shorten_def)
qed

interpretation standard: bounded_deadline "120000000" 3 base inst for base inst
  by unfold_locales simp

section \<open>The watch over a log\<close>

datatype watch_op = Observe string "int option" string | Say string int

fun watch_step :: "(Checkpoint \<Rightarrow> Confirmation) option \<Rightarrow> Watch \<Rightarrow> watch_op \<Rightarrow> Watch" where
  "watch_step confirms w (Observe command code digest) = snd (observed confirms command code digest w)"
| "watch_step confirms w (Say prose now) = snd (said prose now w)"

text \<open>The answers that a command gave, oldest first.\<close>

fun answers_of :: "string \<Rightarrow> watch_op list \<Rightarrow> answer list" where
  "answers_of key [] = []"
| "answers_of key (Observe command code digest # ops) =
     (if replayable command \<and> normalise command = key then [(code, digest)] else []) @ answers_of key ops"
| "answers_of key (Say _ _ # ops) = answers_of key ops"

lemma answers_of_append [simp]: "answers_of key (ops @ ops') = answers_of key ops @ answers_of key ops'"
  by (induction key ops rule: answers_of.induct) simp_all

text \<open>A pending change: the last two answers differ.\<close>

definition pending :: "string \<Rightarrow> answer list \<Rightarrow> (answer \<times> Checkpoint) option" where
  "pending key xs =
     (case rev xs of
        a # b # _ \<Rightarrow>
          if b = a then None
          else Some (a, \<lparr>ck_before = fst b, ck_after = fst a, ck_replay = key, ck_evidence_digest = snd a\<rparr>)
      | _ \<Rightarrow> None)"

definition latest :: "answer list \<Rightarrow> answer option" where
  "latest xs = (case rev xs of [] \<Rightarrow> None | a # _ \<Rightarrow> Some a)"

definition tracks :: "watch_op list \<Rightarrow> Watch \<Rightarrow> bool" where
  "tracks ops w =
     (\<forall>key. map_of (wa_answered w) key = latest (answers_of key ops)
        \<and> map_of (wa_candidates w) key = pending key (answers_of key ops))"

lemma latest_snoc [simp]: "latest (xs @ [a]) = Some a"
  by (simp add: latest_def)

lemma pending_snoc:
  "pending key (xs @ [a]) =
     (case latest xs of
        None \<Rightarrow> None
      | Some b \<Rightarrow> if b = a then None
          else Some (a, \<lparr>ck_before = fst b, ck_after = fst a, ck_replay = key, ck_evidence_digest = snd a\<rparr>))"
  by (simp add: pending_def latest_def split: list.split)

lemma pending_latest: "pending key xs = Some (a, cp) \<Longrightarrow> latest xs = Some a"
  by (auto simp: pending_def latest_def split: list.splits if_splits)

lemma novelty_simps [simp]:
  "wa_answered (novelty d w) = wa_answered w" "wa_candidates (novelty d w) = wa_candidates w"
  "wa_deadline (novelty d w) = wa_deadline w" "wa_thresholds (novelty d w) = wa_thresholds w"
  "wa_impossible (novelty d w) = wa_impossible w" "wa_steps (novelty d w) = wa_steps w"
  "wa_repeats (novelty d w) = wa_repeats w"
  by (simp_all add: novelty_def)

lemma repeat_simps [simp]:
  "wa_answered (repeat_command k c b w) = wa_answered w" "wa_candidates (repeat_command k c b w) = wa_candidates w"
  "wa_deadline (repeat_command k c b w) = wa_deadline w" "wa_thresholds (repeat_command k c b w) = wa_thresholds w"
  "wa_impossible (repeat_command k c b w) = wa_impossible w" "wa_steps (repeat_command k c b w) = wa_steps w"
  by (simp_all add: repeat_command_def Let_def)

lemma confirmed_simps [simp]:
  "wa_answered (confirmed f cp w) = wa_answered w" "wa_candidates (confirmed f cp w) = wa_candidates w"
  "wa_thresholds (confirmed f cp w) = wa_thresholds w" "wa_impossible (confirmed f cp w) = wa_impossible w"
  by (simp_all add: confirmed_def Let_def)

lemma unconfirmed_simps [simp]:
  "wa_answered (unconfirmed k a b w) = wa_answered w" "wa_deadline (unconfirmed k a b w) = wa_deadline w"
  "wa_thresholds (unconfirmed k a b w) = wa_thresholds w" "wa_impossible (unconfirmed k a b w) = wa_impossible w"
  "wa_steps (unconfirmed k a b w) = wa_steps w"
  by (simp_all add: unconfirmed_def split: option.split)

text \<open>One observation of a replayable command, with the pending change as the log gives it.\<close>

lemma observed_idle:
  "\<not> replayable command \<Longrightarrow>
     observed f command code digest w = (None, novelty digest (w\<lparr>wa_steps := wa_steps w + 1\<rparr>))"
  by (simp add: observed_def Let_def)

definition noted :: "string \<Rightarrow> int option \<Rightarrow> string \<Rightarrow> Watch \<Rightarrow> Watch" where
  "noted command code digest w =
     (novelty digest (w\<lparr>wa_steps := wa_steps w + 1\<rparr>))
       \<lparr>wa_last := command, wa_answered := dict_set (normalise command) (code, digest) (wa_answered w)\<rparr>"

lemma observed_repeats:
  assumes "replayable command" "map_of (wa_candidates w) (normalise command) = Some ((code, digest), cp)"
  shows "observed f command code digest w =
    (Some cp, confirmed f cp ((noted command code digest w)
       \<lparr>wa_candidates := dict_del (normalise command) (wa_candidates w)\<rparr>))"
  using assms by (simp add: observed_def Let_def noted_def)

lemma observed_other:
  assumes "replayable command" "\<And>cp. map_of (wa_candidates w) (normalise command) \<noteq> Some ((code, digest), cp)"
  shows "observed f command code digest w =
    (None, unconfirmed (normalise command) (code, digest) (map_of (wa_answered w) (normalise command))
       (noted command code digest w))"
  using assms by (auto simp: observed_def Let_def noted_def split: option.split prod.split)

lemma noted_simps [simp]:
  "wa_answered (noted c code d w) = dict_set (normalise c) (code, d) (wa_answered w)"
  "wa_candidates (noted c code d w) = wa_candidates w" "wa_deadline (noted c code d w) = wa_deadline w"
  "wa_thresholds (noted c code d w) = wa_thresholds w" "wa_impossible (noted c code d w) = wa_impossible w"
  "wa_steps (noted c code d w) = wa_steps w + 1" "wa_repeats (noted c code d w) = wa_repeats w"
  by (simp_all add: noted_def)

lemma observed_cases:
  obtains (idle) "\<not> replayable command"
      "observed f command code digest w = (None, novelty digest (w\<lparr>wa_steps := wa_steps w + 1\<rparr>))"
  | (change) cp where "replayable command"
      "map_of (wa_candidates w) (normalise command) = Some ((code, digest), cp)"
      "observed f command code digest w = (Some cp, confirmed f cp ((noted command code digest w)
         \<lparr>wa_candidates := dict_del (normalise command) (wa_candidates w)\<rparr>))"
  | (other) "replayable command" "\<And>cp. map_of (wa_candidates w) (normalise command) \<noteq> Some ((code, digest), cp)"
      "observed f command code digest w =
        (None, unconfirmed (normalise command) (code, digest) (map_of (wa_answered w) (normalise command))
          (noted command code digest w))"
  using observed_idle observed_repeats observed_other by metis

lemma tracks_observed:
  assumes t: "tracks ops w"
  shows "tracks (ops @ [Observe command code digest]) (snd (observed f command code digest w))"
proof (cases "replayable command")
  case False
  then show ?thesis using t by (simp add: observed_idle tracks_def)
next
  case True
  let ?k = "normalise command" and ?a = "(code, digest)"
  have old: "map_of (wa_answered w) key = latest (answers_of key ops)"
    "map_of (wa_candidates w) key = pending key (answers_of key ops)" for key
    using t unfolding tracks_def by blast+
  show ?thesis
  proof (cases "\<exists>cp. pending ?k (answers_of ?k ops) = Some (?a, cp)")
    case True
    then obtain cp where cp: "pending ?k (answers_of ?k ops) = Some (?a, cp)" ..
    have "latest (answers_of ?k ops) = Some ?a" using cp by (rule pending_latest)
    then show ?thesis
      using \<open>replayable command\<close> cp old
      by (auto simp: observed_repeats [OF \<open>replayable command\<close>, of w code digest cp f] tracks_def pending_snoc)
  next
    case False
    then have "observed f command code digest w =
        (None, unconfirmed ?k ?a (map_of (wa_answered w) ?k) (noted command code digest w))"
      using \<open>replayable command\<close> old by (intro observed_other) auto
    moreover have "map_of (wa_candidates (unconfirmed ?k ?a (latest (answers_of ?k ops)) (noted command code digest w))) key
        = pending key (answers_of key (ops @ [Observe command code digest]))" for key
      using old \<open>replayable command\<close> False
      by (auto simp: unconfirmed_def pending_snoc split: option.splits)
         (auto simp: pending_def latest_def split: list.splits if_splits)
    ultimately show ?thesis using old \<open>replayable command\<close> by (auto simp: tracks_def)
  qed
qed

lemma tracks_said: "tracks ops w \<Longrightarrow> tracks (ops @ [Say prose now]) (snd (said prose now w))"
  by (simp add: said_def tracks_def)

lemma tracks_run: "tracks ops (foldl (watch_step f) (new_watch d th) ops)"
proof (induction ops rule: rev_induct)
  case Nil
  show ?case by (simp add: tracks_def new_watch_def latest_def pending_def)
next
  case (snoc e ops)
  then show ?case by (cases e) (simp_all add: tracks_observed tracks_said)
qed

text \<open>The rest of a watch: its thresholds are fixed and its deadline moves only by extension and by
  shortening.\<close>

definition watch_ok :: "int \<Rightarrow> Thresholds \<Rightarrow> int \<Rightarrow> int option \<Rightarrow> Watch \<Rightarrow> bool" where
  "watch_ok u th base inst w =
     (wa_thresholds w = th \<and> deadline_ok u (th_extensions th) base inst (wa_deadline w))"

lemma confirmed_deadline:
  "wa_deadline (confirmed f cp w) = wa_deadline w
   \<or> wa_deadline (confirmed f cp w) =
       deadline_step (th_extension_seconds (wa_thresholds w)) (th_extensions (wa_thresholds w)) (wa_deadline w) Extend"
  by (simp add: confirmed_def Let_def)

lemma observed_deadline:
  "wa_deadline (snd (observed f command code digest w)) = wa_deadline w
   \<or> wa_deadline (snd (observed f command code digest w)) =
       deadline_step (th_extension_seconds (wa_thresholds w)) (th_extensions (wa_thresholds w)) (wa_deadline w) Extend"
proof (cases rule: observed_cases [of command f code digest w])
  case (change cp)
  show ?thesis
    unfolding change(3) snd_conv
    using confirmed_deadline [of f cp "(noted command code digest w)
       \<lparr>wa_candidates := dict_del (normalise command) (wa_candidates w)\<rparr>"] by simp
qed simp_all

lemma observed_kept:
  "wa_thresholds (snd (observed f command code digest w)) = wa_thresholds w
   \<and> wa_impossible (snd (observed f command code digest w)) = wa_impossible w"
  by (cases rule: observed_cases [of command f code digest w]) simp_all

lemma watch_step_ok:
  assumes "0 \<le> u" "th_extension_seconds th = us_seconds u" "watch_ok u th base inst w"
  shows "watch_ok u th base inst (watch_step f w e)"
proof (cases e)
  case (Observe command code digest)
  have "deadline_ok u (th_extensions th) base inst (deadline_step (us_seconds u) (th_extensions th) (wa_deadline w) Extend)"
    using assms by (intro deadline_step_ok) (simp_all add: watch_ok_def)
  then show ?thesis
    using assms observed_deadline [of f command code digest w] Observe
    by (auto simp: watch_ok_def observed_kept simp del: deadline_step.simps)
next
  case (Say prose now)
  have "deadline_ok u (th_extensions th) base inst (deadline_step (us_seconds u) (th_extensions th) (wa_deadline w) (Shorten now))"
    using assms by (intro deadline_step_ok) (simp_all add: watch_ok_def)
  then show ?thesis using assms Say by (simp add: watch_ok_def said_def)
qed

lemma watch_run_ok:
  assumes "0 \<le> u" "th_extension_seconds th = us_seconds u"
  shows "watch_ok u th base inst (foldl (watch_step f) (new_watch (new_deadline base inst) th) ops)"
proof (induction ops rule: rev_induct)
  case Nil
  show ?case using assms(1) by (simp add: watch_ok_def new_watch_def new_deadline_ok)
next
  case (snoc e ops)
  then show ?case using watch_step_ok [OF assms] by simp
qed

lemma spent_after: "at_time d \<le> now \<Longrightarrow> spent d now \<noteq> None"
  by (simp add: spent_def left_def split: option.split)

lemma cause_spent: "spent (wa_deadline w) now \<noteq> None \<Longrightarrow> cause w now \<noteq> None"
  by (simp add: cause_def)

section \<open>Properties\<close>

text \<open>C18. The kill deadline is bounded: whatever sequence of extensions, restored epochs and
  shortenings happens to it, it never passes the budget by more than the cap of extensions, and never
  outlives the Instance.\<close>

theorem deadline_bounded:
  assumes "0 \<le> u"
  shows "at_time (foldl (deadline_step (us_seconds u) cap) (new_deadline base inst) ops) \<le> base + u * max cap 0
    \<and> (\<forall>i. inst = Some i \<longrightarrow> at_time (foldl (deadline_step (us_seconds u) cap) (new_deadline base inst) ops) \<le> i)"
proof -
  have "deadline_ok u cap base inst (foldl (deadline_step (us_seconds u) cap) (new_deadline base inst) ops)"
    by (rule bounded_deadline.ok_run [OF bounded_deadline.intro [OF assms]])
  then show ?thesis by (rule deadline_ok_at)
qed

theorem deadline_bounded_witness:
  "at_time (foldl (deadline_step (us_seconds 120000000) 3) (new_deadline 0 (Some 500000000)) [Extend, Extend, Epochs 9, Extend])
     \<le> 360000000"
  using deadline_bounded [of 120000000 3 0 "Some 500000000" "[Extend, Extend, Epochs 9, Extend]"] by simp

text \<open>C19. A shortened deadline is sealed: once it has been brought forward to \<open>t\<close>, no later
  operation moves it past \<open>t\<close>.\<close>

theorem deadline_sealed:
  "dl_budget (foldl (deadline_step seconds cap) (shorten t d) ops) \<le> t"
proof -
  have "sealed_by t (shorten t d)" by (simp add: sealed_by_def shorten_def)
  then have "sealed_by t (foldl (deadline_step seconds cap) (shorten t d) ops)" by (rule seal.inv_run)
  then show ?thesis by (simp add: sealed_by_def)
qed

text \<open>C20. Every Attempt ends: whatever the model runs and says, the watch names a cause from the
  moment the budget and all its extensions have passed.\<close>

theorem attempt_ends:
  assumes "0 \<le> u" "th_extension_seconds th = us_seconds u" "base + u * max (th_extensions th) 0 \<le> now"
  shows "cause (foldl (watch_step f) (new_watch (new_deadline base inst) th) ops) now \<noteq> None"
proof (rule cause_spent, rule spent_after)
  show "at_time (wa_deadline (foldl (watch_step f) (new_watch (new_deadline base inst) th) ops)) \<le> now"
    using watch_run_ok [OF assms(1,2), of base inst f ops] assms(3)
    by (auto simp: watch_ok_def dest!: deadline_ok_at)
qed

theorem attempt_ends_witness:
  "cause (foldl (watch_step None) (new_watch (new_deadline 600000000 None) default_thresholds)
     [Observe ''ls'' (Some 0) ''a'', Observe ''ls'' (Some 0) ''b'', Observe ''ls'' (Some 0) ''b'']) 960000000 \<noteq> None"
proof (rule attempt_ends [of 120000000])
  show "th_extension_seconds default_thresholds = us_seconds 120000000"
    by (simp add: default_thresholds_def us_seconds_def)
qed (simp_all add: default_thresholds_def)

text \<open>C21. A Checkpoint is minted exactly when a changed answer is repeated: an observation returns one
  if and only if the command is replayable and its last answer in this Attempt was the present one
  while the answer before that was different.  The first change of an answer mints nothing, and a
  command that answers differently every time never mints one.\<close>

theorem checkpoint_iff_stable_change:
  "(fst (observed f command code digest (foldl (watch_step f) (new_watch d th) ops)) \<noteq> None)
     \<longleftrightarrow> replayable command
        \<and> (\<exists>xs b. answers_of (normalise command) ops = xs @ [b, (code, digest)] \<and> b \<noteq> (code, digest))"
proof -
  let ?w = "foldl (watch_step f) (new_watch d th) ops" and ?xs = "answers_of (normalise command) ops"
  have "map_of (wa_candidates ?w) (normalise command) = pending (normalise command) ?xs"
    using tracks_run [of ops f d th] unfolding tracks_def by blast
  moreover have "(\<exists>cp. pending (normalise command) ?xs = Some ((code, digest), cp))
      \<longleftrightarrow> (\<exists>ys b. ?xs = ys @ [b, (code, digest)] \<and> b \<noteq> (code, digest))"
  proof
    assume "\<exists>cp. pending (normalise command) ?xs = Some ((code, digest), cp)"
    then obtain b ys where "rev ?xs = (code, digest) # b # ys" "b \<noteq> (code, digest)"
      by (auto simp: pending_def split: list.splits if_splits)
    then have "?xs = rev ys @ [b, (code, digest)]" by (simp add: rev_eq_Cons_iff)
    then show "\<exists>ys b. ?xs = ys @ [b, (code, digest)] \<and> b \<noteq> (code, digest)"
      using \<open>b \<noteq> (code, digest)\<close> by blast
  qed (auto simp: pending_def)
  ultimately show ?thesis
    by (cases "replayable command"; cases "\<exists>cp. pending (normalise command) ?xs = Some ((code, digest), cp)")
       (auto simp: observed_idle observed_repeats observed_other)
qed

fun barren_run :: "(Checkpoint \<Rightarrow> Confirmation) option \<Rightarrow> Watch \<Rightarrow> watch_op list \<Rightarrow> bool" where
  "barren_run f w [] = True"
| "barren_run f w (Observe command code digest # ops) =
     (fst (observed f command code digest w) = None \<and> barren_run f (snd (observed f command code digest w)) ops)"
| "barren_run f w (Say prose now # ops) = barren_run f (snd (said prose now w)) ops"

definition observations :: "watch_op list \<Rightarrow> int" where
  "observations ops = int (length (filter (\<lambda>e. case e of Observe _ _ _ \<Rightarrow> True | Say _ _ \<Rightarrow> False) ops))"

lemma barren_steps:
  "barren_run f w ops \<Longrightarrow>
     wa_steps (foldl (watch_step f) w ops) = wa_steps w + observations ops
     \<and> wa_thresholds (foldl (watch_step f) w ops) = wa_thresholds w"
proof (induction f w ops rule: barren_run.induct)
  case (2 f w command code digest ops)
  have "wa_steps (snd (observed f command code digest w)) = wa_steps w + 1"
    using 2(2) by (cases rule: observed_cases [of command f code digest w]) simp_all
  then show ?case using 2 observed_kept [of f command code digest w] by (simp add: observations_def)
next
  case (3 f w prose now ops)
  then show ?case by (simp add: observations_def said_def split: if_splits)
qed (simp add: observations_def)

text \<open>The step cliff cannot be argued with: after as many observations without a Checkpoint as the
  cliff allows, the Attempt is over, whatever the clock says.\<close>

lemma step_cliff:
  assumes "barren_run f w ops" "0 \<le> wa_steps w" "th_cliff (wa_thresholds w) \<le> observations ops"
  shows "cause (foldl (watch_step f) w ops) now \<noteq> None"
  using barren_steps [OF assms(1)] assms(2,3) by (simp add: cause_def)

text \<open>C22. A model that has given up stays given up: once a declaration is read, every later state of
  the watch names the self-report as the cause, and no Checkpoint moves the deadline past that
  moment.\<close>

theorem said_is_final:
  assumes "fst (said prose now w)"
  shows "cause (foldl (watch_step f) (snd (said prose now w)) ops) t = Some CUT_SELF_REPORTED_IMPOSSIBLE
    \<and> at_time (wa_deadline (foldl (watch_step f) (snd (said prose now w)) ops)) \<le> now"
proof -
  have "wa_impossible (foldl (watch_step f) (snd (said prose now w)) ops)
      \<and> sealed_by now (wa_deadline (foldl (watch_step f) (snd (said prose now w)) ops))"
  proof (induction ops rule: rev_induct)
    case Nil
    show ?case using assms by (auto simp: said_def sealed_by_def shorten_def split: if_splits)
  next
    case (snoc e ops)
    let ?v = "foldl (watch_step f) (snd (said prose now w)) ops"
    show ?case
    proof (cases e)
      case (Observe command code digest)
      have "sealed_by now (deadline_step (th_extension_seconds (wa_thresholds ?v)) (th_extensions (wa_thresholds ?v))
          (wa_deadline ?v) Extend)"
        using snoc.IH by (intro seal.inv_step) blast
      then show ?thesis
        using snoc.IH observed_kept [of f command code digest ?v] observed_deadline [of f command code digest ?v] Observe
        by (auto simp del: deadline_step.simps)
    next
      case (Say prose' now')
      then show ?thesis using snoc.IH by (auto simp: said_def sealed_by_def shorten_def)
    qed
  qed
  then show ?thesis by (auto simp: cause_def sealed_by_def at_time_def split: option.split)
qed

theorem said_is_final_witness:
  "cause (foldl (watch_step None)
       (snd (said ''I give up'' 5 (new_watch (new_deadline 600000000 None) default_thresholds)))
       [Observe ''ls'' (Some 0) ''a'']) 0 = Some CUT_SELF_REPORTED_IMPOSSIBLE"
proof -
  have "fst (said ''I give up'' 5 (new_watch (new_deadline 600000000 None) default_thresholds))" by code_simp
  from said_is_final [OF this] show ?thesis by blast
qed

section \<open>The breaker\<close>

text \<open>The backoff of a broken Solver is bounded: while fewer than 1026 barren Attempts are on the
  streak it answers with a wait between zero and the cap.\<close>

lemma backoff_bounded:
  assumes "0 \<le> br_base_seconds b" "0 \<le> br_cap_seconds b" "length (br_streak b) < 1026"
  shows "\<exists>s. backoff b = Inr s \<and> 0 \<le> s \<and> s \<le> br_cap_seconds b
    \<and> (s = 0 \<or> s = br_cap_seconds b \<or> s = br_base_seconds b * 2 ^ (length (br_streak b) - 2))"
proof -
  have "0 \<le> br_base_seconds b * 2 ^ (length (br_streak b) - 2)" using assms(1) by simp
  then show ?thesis using assms unfolding backoff_def Let_def by (auto simp: min_def)
qed



text \<open>The barren Attempts of a Challenge since its last productive one, newest first.\<close>

fun barren_since :: "string \<Rightarrow> (string \<times> int) list \<Rightarrow> int" where
  "barren_since ch [] = 0"
| "barren_since ch ((c, steps) # past) =
     (if c \<noteq> ch then barren_since ch past else if steps \<noteq> 0 then 0 else 1 + barren_since ch past)"

definition breaker_run :: "Breaker \<Rightarrow> (string \<times> int) list \<Rightarrow> Breaker" where
  "breaker_run b past = foldl (\<lambda>b (c, steps). snd (attempt_closed c steps b)) b past"

lemma barren_since_nonneg: "0 \<le> barren_since ch past"
  by (induction ch past rule: barren_since.induct) simp_all

lemma breaker_counts:
  "br_limit (breaker_run (new_breaker limit base cap) past) = limit
   \<and> (case map_of (br_barren (breaker_run (new_breaker limit base cap) past)) ch of None \<Rightarrow> 0 | Some n \<Rightarrow> n)
       = barren_since ch (rev past)"
proof (induction past arbitrary: ch rule: rev_induct)
  case Nil
  show ?case by (simp add: breaker_run_def new_breaker_def)
next
  case (snoc e past)
  obtain c steps where e: "e = (c, steps)" by (cases e)
  let ?b = "breaker_run (new_breaker limit base cap) past"
  have run: "breaker_run (new_breaker limit base cap) (past @ [e]) = snd (attempt_closed c steps ?b)"
    by (simp add: breaker_run_def e)
  show ?case
    unfolding run using snoc.IH [of ch] snoc.IH [of c] by (auto simp: e attempt_closed_def Let_def)
qed

text \<open>C24. The circuit breaker trips exactly on a Challenge that keeps being barren: closing a barren
  Attempt is recorded as a crash if and only if that Challenge's barren Attempts since its last
  productive one, this one included, reach the limit.\<close>

theorem breaker_trips_iff:
  "fst (attempt_closed ch steps (breaker_run (new_breaker limit base cap) past))
     \<longleftrightarrow> steps = 0 \<and> limit \<le> 1 + barren_since ch (rev past)"
  using breaker_counts [of limit base cap past ch] by (auto simp: attempt_closed_def Let_def)

end
