(* ===== verification/Work_Generation.thy ===== *)
theory Work_Generation
  imports Event_Store_Properties
begin

text \<open>
  \<open>solver/work_generation.py\<close>: ownership fences for Challenge Work, projected from the canonical event
  stream.  The projection is a replay of the work-generation events that the store verified, so their
  fields are the strings that the contract checked.  A \<open>GenerationFence\<close> is its store; every operation
  takes the clock \<open>now\<close> as the text the timestamp callback gives in the present store.  Writing the
  receipt after an append re-reads and re-projects the stream, which may raise; the receipt file itself
  is not modelled.
\<close>

section \<open>State\<close>

record GenerationIdentity =
  gi_generation_id :: string
  gi_work_id :: string
  gi_attempt_id :: string

record GenerationState =
  gs_generation_id :: string
  gs_work_id :: string
  gs_attempt_id :: string
  gs_disposition :: "GenerationDisposition option"
  gs_acquired_sequence :: int
  gs_closed_sequence :: "int option"

abbreviation gs_active :: "GenerationState \<Rightarrow> bool" where
  "gs_active g \<equiv> gs_disposition g = None"

definition state_document :: "GenerationState \<Rightarrow> json" where
  "state_document g =
     JObj [(''generation_id'', JStr (gs_generation_id g)), (''work_id'', JStr (gs_work_id g)),
           (''attempt_id'', JStr (gs_attempt_id g)),
           (''disposition'', opt_json (JStr \<circ> gen_disposition_value) (gs_disposition g)),
           (''acquired_sequence'', JInt (gs_acquired_sequence g)),
           (''closed_sequence'', opt_json JInt (gs_closed_sequence g))]"

record GenerationProjection =
  gp_generations :: "GenerationState list"
  gp_active_by_work :: "(string \<times> GenerationState) list"
  gp_digest :: string
  gp_chain_head :: string

record AuthorityDecision =
  au_accepted :: bool
  au_classification :: GenerationClassification

record AuthorityGrant =
  gr_event_id :: string
  gr_sequence :: int
  gr_run_id :: string
  gr_generation_id :: string
  gr_work_id :: string
  gr_attempt_id :: string
  gr_authority :: GenerationAuthority

section \<open>Projection\<close>

text \<open>The four local dicts of \<open>_project_events\<close>.\<close>

record projecting =
  pj_states :: "(string \<times> GenerationState) list"
  pj_order :: "string list"
  pj_active :: "(string \<times> GenerationState) list"
  pj_attempts :: "(string \<times> string) list"

definition pj_init :: projecting where
  "pj_init = \<lparr>pj_states = [], pj_order = [], pj_active = [], pj_attempts = []\<rparr>"

definition record_of :: "string \<Rightarrow> GenerationRecord option" where
  "record_of s = List.find (\<lambda>r. gen_record_value r = s) all_records"

definition disposition_of :: "string \<Rightarrow> GenerationDisposition option" where
  "disposition_of s = List.find (\<lambda>d. gen_disposition_value d = s) all_dispositions"

definition late_classification :: "GenerationState \<Rightarrow> GenerationClassification" where
  "late_classification g = (if gs_disposition g = Some SUPERSEDE then SUPERSEDED else CLOSED)"

definition project_acquire :: "string \<Rightarrow> string \<Rightarrow> string \<Rightarrow> int \<Rightarrow> projecting \<Rightarrow> projecting res" where
  "project_acquire gid work att sq st =
     bind_res (guard_res (map_of (pj_states st) gid = None) (IllegalGenerationTransition sq)) (\<lambda>_.
     bind_res (guard_res (map_of (pj_active st) work = None) (IllegalGenerationTransition sq)) (\<lambda>_.
     bind_res (guard_res (map_of (pj_attempts st) att = None) (IllegalGenerationTransition sq)) (\<lambda>_.
     let g = \<lparr>gs_generation_id = gid, gs_work_id = work, gs_attempt_id = att, gs_disposition = None,
              gs_acquired_sequence = sq, gs_closed_sequence = None\<rparr>
     in Inr \<lparr>pj_states = dict_set gid g (pj_states st), pj_order = pj_order st @ [gid],
             pj_active = dict_set work g (pj_active st), pj_attempts = dict_set att gid (pj_attempts st)\<rparr>)))"

definition project_close :: "payload \<Rightarrow> int \<Rightarrow> GenerationState \<Rightarrow> projecting \<Rightarrow> projecting res" where
  "project_close p sq g st =
     bind_res (guard_res (gs_active g) (IllegalGenerationTransition sq)) (\<lambda>_.
     bind_res (need (disposition_of (sval p ''disposition'')) (IllegalGenerationTransition sq)) (\<lambda>d.
     bind_res (need (map_of (pj_active st) (gs_work_id g)) KeyError) (\<lambda>_.
     Inr (st\<lparr>pj_states := dict_set (gs_generation_id g) (g\<lparr>gs_disposition := Some d, gs_closed_sequence := Some sq\<rparr>) (pj_states st),
             pj_active := dict_del (gs_work_id g) (pj_active st)\<rparr>))))"

definition project_step :: "projecting \<Rightarrow> CommittedEvent \<Rightarrow> projecting res" where
  "project_step st c =
     (let p = ce_payload c; gid = sval p ''generation_id''; work = sval p ''work_id'';
          att = sval p ''attempt_id''; sq = ce_sequence c; illegal = IllegalGenerationTransition sq in
      bind_res (need (record_of (sval p ''record'')) illegal) (\<lambda>r.
      if r = ACQUIRE then project_acquire gid work att sq st
      else
        bind_res (need (map_of (pj_states st) gid) illegal) (\<lambda>g.
        bind_res (guard_res (gs_work_id g = work \<and> gs_attempt_id g = att) illegal) (\<lambda>_.
        if r = CLOSE then project_close p sq g st
        else if r = AUTHORITY then
          bind_res (guard_res (gs_active g) illegal) (\<lambda>_.
          bind_res (guard_res (sval p ''classification'' = gen_classification_value CURRENT) illegal) (\<lambda>_.
          Inr st))
        else
          bind_res (guard_res (\<not> gs_active g) illegal) (\<lambda>_.
          bind_res (guard_res (sval p ''classification'' = gen_classification_value (late_classification g)) illegal) (\<lambda>_.
          Inr st))))))"

definition is_generation :: "CommittedEvent \<Rightarrow> bool" where
  "is_generation c = (ce_event_type c = ''work-generation.recorded'')"

definition projection_document :: "string \<Rightarrow> GenerationState list \<Rightarrow> (string \<times> GenerationState) list \<Rightarrow> payload" where
  "projection_document run_id states active =
     [(''schema_version'', JInt 1), (''run_id'', JStr run_id),
      (''generations'', JArr (map state_document states)),
      (''active_by_work'', JObj (map (\<lambda>(w, g). (w, JStr (gs_generation_id g))) active))]"

definition project_events :: "env \<Rightarrow> string \<Rightarrow> CommittedEvent list \<Rightarrow> GenerationProjection res" where
  "project_events E run_id evs =
     (let work_events = filter is_generation evs in
      bind_res (replay project_step pj_init work_events) (\<lambda>st.
      bind_res (map_res (\<lambda>gid. need (map_of (pj_states st) gid) KeyError) (pj_order st)) (\<lambda>states.
      Inr \<lparr>gp_generations = states, gp_active_by_work = pj_active st,
           gp_digest = digest_json E (projection_document run_id states (pj_active st)),
           gp_chain_head = (if work_events = [] then '''' else ce_event_digest (last work_events))\<rparr>)))"

definition serial_of :: "string \<Rightarrow> int option" where
  "serial_of gid =
     (let digits = drop 11 gid in
      if take 11 gid = ''generation-'' \<and> digits \<noteq> [] \<and> list_all is_digit digits
      then Some (int (read_nat digits)) else None)"

definition next_generation_id :: "GenerationProjection \<Rightarrow> string" where
  "next_generation_id p =
     (let serials = List.map_filter (serial_of \<circ> gs_generation_id) (gp_generations p)
      in ''generation-'' @ pad6 (show_int ((if serials = [] then 0 else Max (set serials)) + 1)))"

definition state_for :: "GenerationProjection \<Rightarrow> string \<Rightarrow> GenerationState res" where
  "state_for p gid = need (List.find (\<lambda>g. gs_generation_id g = gid) (gp_generations p)) UnknownGeneration"

section \<open>The fence\<close>

definition projection :: "env \<Rightarrow> GenerationProjection op" where
  "projection E s = (bind_res (read_verified E event_contract s) (project_events E (st_run_id s)), s)"

definition fence_append :: "env \<Rightarrow> WorkGenerationRecorded \<Rightarrow> string \<Rightarrow> CommittedEvent op" where
  "fence_append E g body =
     bind_op (append E event_contract (generation_event g) body) (\<lambda>c.
     bind_op (projection E) (\<lambda>_. return_op (Inr c)))"

definition acquire_event :: "string \<Rightarrow> string \<Rightarrow> string \<Rightarrow> string \<Rightarrow> WorkGenerationRecorded" where
  "acquire_event gid work att ts =
     \<lparr>wg_event_id = gid @ '':acquire'', wg_generation_id = gid, wg_work_id = work, wg_attempt_id = att,
      wg_record = ACQUIRE, wg_disposition = None, wg_authority = None, wg_classification = None, wg_ts = ts\<rparr>"

text \<open>What the two ways to acquire check against the projection before they append.\<close>

definition unclaimed :: "GenerationProjection \<Rightarrow> string \<Rightarrow> string \<Rightarrow> unit res" where
  "unclaimed p work att =
     bind_res (guard_res (map_of (gp_active_by_work p) work = None) GenerationConflict) (\<lambda>_.
     guard_res (\<not> list_ex (\<lambda>g. gs_attempt_id g = att) (gp_generations p)) GenerationConflict)"

definition acquire_as :: "env \<Rightarrow> (store \<Rightarrow> string) \<Rightarrow> string \<Rightarrow> string \<Rightarrow> string \<Rightarrow> GenerationIdentity op" where
  "acquire_as E now gid work att s =
     bind_op (fence_append E (acquire_event gid work att (now s)) [])
       (\<lambda>_. return_op (Inr \<lparr>gi_generation_id = gid, gi_work_id = work, gi_attempt_id = att\<rparr>)) s"

definition acquire :: "env \<Rightarrow> (store \<Rightarrow> string) \<Rightarrow> string \<Rightarrow> string \<Rightarrow> GenerationIdentity op" where
  "acquire E now work att =
     bind_op (return_op (guard_res (work \<noteq> [] \<and> att \<noteq> []) ValueError)) (\<lambda>_.
     bind_op (projection E) (\<lambda>p.
     bind_op (return_op (unclaimed p work att)) (\<lambda>_.
     acquire_as E now (next_generation_id p) work att)))"

definition acquire_exact :: "env \<Rightarrow> (store \<Rightarrow> string) \<Rightarrow> string \<Rightarrow> string \<Rightarrow> string \<Rightarrow> GenerationIdentity op" where
  "acquire_exact E now gid work att =
     bind_op (return_op (guard_res (work \<noteq> [] \<and> att \<noteq> [] \<and> serial_of gid \<noteq> None) ValueError)) (\<lambda>_.
     bind_op (projection E) (\<lambda>p.
     case List.find (\<lambda>g. gs_generation_id g = gid) (gp_generations p) of
       Some g \<Rightarrow>
         return_op (if gs_work_id g = work \<and> gs_attempt_id g = att \<and> gs_active g
           then Inr \<lparr>gi_generation_id = gid, gi_work_id = work, gi_attempt_id = att\<rparr> else Inl GenerationConflict)
     | None \<Rightarrow>
         bind_op (return_op (guard_res (gid = next_generation_id p) GenerationConflict)) (\<lambda>_.
         bind_op (return_op (unclaimed p work att)) (\<lambda>_.
         acquire_as E now gid work att))))"

definition close_event :: "GenerationState \<Rightarrow> GenerationDisposition \<Rightarrow> string \<Rightarrow> WorkGenerationRecorded" where
  "close_event g d ts =
     \<lparr>wg_event_id = gs_generation_id g @ '':close'', wg_generation_id = gs_generation_id g,
      wg_work_id = gs_work_id g, wg_attempt_id = gs_attempt_id g, wg_record = CLOSE, wg_disposition = Some d,
      wg_authority = None, wg_classification = None, wg_ts = ts\<rparr>"

definition close :: "env \<Rightarrow> (store \<Rightarrow> string) \<Rightarrow> string \<Rightarrow> GenerationDisposition \<Rightarrow> unit op" where
  "close E now gid d =
     bind_op (projection E) (\<lambda>p.
     bind_op (return_op (state_for p gid)) (\<lambda>g.
     if \<not> gs_active g
     then return_op (if gs_disposition g = Some d then Inr () else Inl GenerationConflict)
     else (\<lambda>s. bind_op (fence_append E (close_event g d (now s)) []) (\<lambda>_. return_op (Inr ())) s)))"

definition replace_work :: "env \<Rightarrow> (store \<Rightarrow> string) \<Rightarrow> string \<Rightarrow> string \<Rightarrow> GenerationIdentity op" where
  "replace_work E now work att =
     bind_op (projection E) (\<lambda>p.
     bind_op (case map_of (gp_active_by_work p) work of
         None \<Rightarrow> return_op (Inr ())
       | Some g \<Rightarrow> close E now (gs_generation_id g) SUPERSEDE) (\<lambda>_.
     acquire E now work att))"

definition count_records :: "string \<Rightarrow> GenerationRecord \<Rightarrow> CommittedEvent list \<Rightarrow> nat" where
  "count_records gid r evs =
     length (filter (\<lambda>c. is_generation c \<and> sval (ce_payload c) ''generation_id'' = gid
       \<and> sval (ce_payload c) ''record'' = gen_record_value r) evs)"

definition next_late_event_id :: "env \<Rightarrow> string \<Rightarrow> string op" where
  "next_late_event_id E gid s =
     (bind_res (read_verified E event_contract s) (\<lambda>evs.
        Inr (gid @ '':late-'' @ pad6 (show_nat (count_records gid LATE_EVENT evs + 1)))), s)"

definition next_authority_event_id :: "env \<Rightarrow> string \<Rightarrow> string op" where
  "next_authority_event_id E gid s =
     (bind_res (read_verified E event_contract s) (\<lambda>evs.
        Inr (gid @ '':authority-'' @ pad6 (show_nat (count_records gid AUTHORITY evs + 1)))), s)"

definition authority_event :: "string \<Rightarrow> GenerationState \<Rightarrow> GenerationRecord \<Rightarrow> GenerationAuthority
    \<Rightarrow> GenerationClassification \<Rightarrow> string \<Rightarrow> WorkGenerationRecorded" where
  "authority_event eid g r a cl ts =
     \<lparr>wg_event_id = eid, wg_generation_id = gs_generation_id g, wg_work_id = gs_work_id g,
      wg_attempt_id = gs_attempt_id g, wg_record = r, wg_disposition = None, wg_authority = Some a,
      wg_classification = Some cl, wg_ts = ts\<rparr>"

definition authorize_inner :: "env \<Rightarrow> (store \<Rightarrow> string) \<Rightarrow> string \<Rightarrow> GenerationAuthority \<Rightarrow> string
    \<Rightarrow> (AuthorityDecision \<times> AuthorityGrant option) op" where
  "authorize_inner E now gid a evidence =
     bind_op (projection E) (\<lambda>p.
     bind_op (return_op (state_for p gid)) (\<lambda>g.
     if gs_active g then
       bind_op (next_authority_event_id E gid) (\<lambda>eid.
       bind_op (\<lambda>s. fence_append E (authority_event eid g AUTHORITY a CURRENT (now s)) [] s) (\<lambda>c s.
       (Inr (\<lparr>au_accepted = True, au_classification = CURRENT\<rparr>,
             Some \<lparr>gr_event_id = eid, gr_sequence = ce_sequence c, gr_run_id = st_run_id s,
                   gr_generation_id = gs_generation_id g, gr_work_id = gs_work_id g,
                   gr_attempt_id = gs_attempt_id g, gr_authority = a\<rparr>), s)))
     else
       bind_op (next_late_event_id E gid) (\<lambda>eid.
       bind_op (\<lambda>s. fence_append E (authority_event eid g LATE_EVENT a (late_classification g) (now s)) evidence s) (\<lambda>_.
       return_op (Inr (\<lparr>au_accepted = False, au_classification = late_classification g\<rparr>, None))))))"

definition authorize :: "env \<Rightarrow> (store \<Rightarrow> string) \<Rightarrow> string \<Rightarrow> GenerationAuthority \<Rightarrow> string \<Rightarrow> AuthorityDecision op" where
  "authorize E now gid a evidence =
     bind_op (authorize_inner E now gid a evidence) (\<lambda>(decision, _). return_op (Inr decision))"

text \<open>\<open>commits\<close> and \<open>inspect\<close> are the caller's callbacks; they may use the store and may raise.\<close>

definition authorize_and_commit :: "env \<Rightarrow> (store \<Rightarrow> string) \<Rightarrow> string \<Rightarrow> GenerationAuthority
    \<Rightarrow> (AuthorityGrant \<Rightarrow> 'a op) \<Rightarrow> string \<Rightarrow> (AuthorityDecision \<times> 'a option) op" where
  "authorize_and_commit E now gid a commits evidence =
     bind_op (authorize_inner E now gid a evidence) (\<lambda>(decision, grant).
     case grant of
       None \<Rightarrow> return_op (Inr (decision, None))
     | Some g \<Rightarrow> bind_op (commits g) (\<lambda>x. return_op (Inr (decision, Some x))))"

definition inspect_current :: "env \<Rightarrow> string \<Rightarrow> 'a op \<Rightarrow> 'a option op" where
  "inspect_current E gid inspect =
     bind_op (projection E) (\<lambda>p.
     bind_op (return_op (state_for p gid)) (\<lambda>g.
     if gs_active g then bind_op inspect (\<lambda>x. return_op (Inr (Some x))) else return_op (Inr None)))"

fun close_all :: "env \<Rightarrow> (store \<Rightarrow> string) \<Rightarrow> string list \<Rightarrow> unit op" where
  "close_all E now [] = return_op (Inr ())"
| "close_all E now (gid # gids) = bind_op (close E now gid INTERRUPT) (\<lambda>_. close_all E now gids)"

definition reconcile_restart :: "env \<Rightarrow> (store \<Rightarrow> string) \<Rightarrow> string list op" where
  "reconcile_restart E now =
     bind_op (projection E) (\<lambda>p.
     let active = map gs_generation_id (filter gs_active (gp_generations p))
     in bind_op (close_all E now active) (\<lambda>_. return_op (Inr active)))"

end
