(* ===== verification/Work_Generation_Laws.thy ===== *)
theory Work_Generation_Laws
  imports Work_Generation
begin

text \<open>
  The invariant of the generation projection, that a closed generation stays closed in every legal
  extension of the log, that the next generation identity is new, and what each operation of the fence
  does to the log when its store is sound.
\<close>

section \<open>The projection invariant\<close>

definition pj_inv :: "projecting \<Rightarrow> bool" where
  "pj_inv st =
     (distinct (pj_order st) \<and> set (pj_order st) = dom (map_of (pj_states st))
      \<and> (\<forall>gid g. map_of (pj_states st) gid = Some g \<longrightarrow> gs_generation_id g = gid)
      \<and> (\<forall>w g. map_of (pj_active st) w = Some g \<longleftrightarrow>
           map_of (pj_states st) (gs_generation_id g) = Some g \<and> gs_active g \<and> gs_work_id g = w)
      \<and> (\<forall>a gid. map_of (pj_attempts st) a = Some gid \<longleftrightarrow>
           (\<exists>g. map_of (pj_states st) gid = Some g \<and> gs_attempt_id g = a)))"

lemma pj_invD:
  assumes "pj_inv st"
  shows "distinct (pj_order st)" "set (pj_order st) = dom (map_of (pj_states st))"
    "map_of (pj_states st) gid = Some g \<Longrightarrow> gs_generation_id g = gid"
    "map_of (pj_active st) w = Some g \<longleftrightarrow>
       map_of (pj_states st) (gs_generation_id g) = Some g \<and> gs_active g \<and> gs_work_id g = w"
    "map_of (pj_attempts st) a = Some gid \<longleftrightarrow>
       (\<exists>g. map_of (pj_states st) gid = Some g \<and> gs_attempt_id g = a)"
  using assms unfolding pj_inv_def by blast+

lemma project_step_cases:
  assumes "project_step st c = Inr st'"
  obtains (acquire) "record_of (sval (ce_payload c) ''record'') = Some ACQUIRE"
      "project_acquire (sval (ce_payload c) ''generation_id'') (sval (ce_payload c) ''work_id'')
         (sval (ce_payload c) ''attempt_id'') (ce_sequence c) st = Inr st'"
  | (close) g where "record_of (sval (ce_payload c) ''record'') = Some CLOSE"
      "map_of (pj_states st) (sval (ce_payload c) ''generation_id'') = Some g"
      "project_close (ce_payload c) (ce_sequence c) g st = Inr st'"
  | (keep) g r where "record_of (sval (ce_payload c) ''record'') = Some r" "r \<noteq> ACQUIRE" "r \<noteq> CLOSE"
      "map_of (pj_states st) (sval (ce_payload c) ''generation_id'') = Some g" "st' = st"
proof -
  obtain r where r: "record_of (sval (ce_payload c) ''record'') = Some r"
    using assms by (auto simp: project_step_def Let_def bind_res_Inr_iff)
  show ?thesis
  proof (cases "r = ACQUIRE")
    case True
    then show ?thesis using assms r acquire by (simp add: project_step_def Let_def)
  next
    case not_acquire: False
    obtain g where g: "map_of (pj_states st) (sval (ce_payload c) ''generation_id'') = Some g"
      using assms r not_acquire by (auto simp: project_step_def Let_def bind_res_Inr_iff)
    show ?thesis
    proof (cases "r = CLOSE")
      case True
      then show ?thesis using assms r g close not_acquire by (simp add: project_step_def Let_def)
    next
      case False
      have "st' = st"
        using assms r g not_acquire False by (simp add: project_step_def Let_def split: if_splits)
      then show ?thesis using keep r not_acquire False g by blast
    qed
  qed
qed

lemma project_acquire_Inr:
  assumes "project_acquire gid work att sq st = Inr st'"
  shows "map_of (pj_states st) gid = None" "map_of (pj_active st) work = None" "map_of (pj_attempts st) att = None"
    "st' = (let g = \<lparr>gs_generation_id = gid, gs_work_id = work, gs_attempt_id = att, gs_disposition = None,
              gs_acquired_sequence = sq, gs_closed_sequence = None\<rparr>
       in \<lparr>pj_states = dict_set gid g (pj_states st), pj_order = pj_order st @ [gid],
             pj_active = dict_set work g (pj_active st), pj_attempts = dict_set att gid (pj_attempts st)\<rparr>)"
  using assms by (simp_all add: project_acquire_def Let_def)

lemma project_close_Inr:
  assumes "project_close p sq g st = Inr st'"
  shows "gs_active g" "\<exists>d. disposition_of (sval p ''disposition'') = Some d
     \<and> st' = st\<lparr>pj_states := dict_set (gs_generation_id g) (g\<lparr>gs_disposition := Some d, gs_closed_sequence := Some sq\<rparr>) (pj_states st),
             pj_active := dict_del (gs_work_id g) (pj_active st)\<rparr>"
  using assms by (auto simp: project_close_def bind_res_Inr_iff)

lemma pj_inv_acquire:
  assumes inv: "pj_inv st" and run: "project_acquire gid work att sq st = Inr st'"
  shows "pj_inv st'"
proof -
  define g where "g = \<lparr>gs_generation_id = gid, gs_work_id = work, gs_attempt_id = att, gs_disposition = None,
              gs_acquired_sequence = sq, gs_closed_sequence = None :: int option\<rparr>"
  have g: "gs_generation_id g = gid" "gs_work_id g = work" "gs_attempt_id g = att" "gs_active g"
    by (simp_all add: g_def)
  note new = project_acquire_Inr(1-3) [OF run]
  have st': "pj_states st' = dict_set gid g (pj_states st)" "pj_order st' = pj_order st @ [gid]"
    "pj_active st' = dict_set work g (pj_active st)" "pj_attempts st' = dict_set att gid (pj_attempts st)"
    using project_acquire_Inr(4) [OF run] by (simp_all add: Let_def g_def)
  note d = pj_invD [OF inv]
  have fresh: "gs_generation_id x \<noteq> gid" if "map_of (pj_states st) (gs_generation_id x) = Some x" for x
    using that new(1) by auto
  have "distinct (pj_order st')" using d(1,2) new(1) by (auto simp: st' dom_def)
  moreover have "set (pj_order st') = dom (map_of (pj_states st'))" using d(2) by (auto simp: st')
  moreover have "gs_generation_id x = k" if "map_of (pj_states st') k = Some x" for k x
    using that d(3) g(1) by (auto simp: st' split: if_splits)
  moreover have "map_of (pj_active st') w = Some x \<longleftrightarrow>
      map_of (pj_states st') (gs_generation_id x) = Some x \<and> gs_active x \<and> gs_work_id x = w" for w x
  proof (cases "x = g")
    case True
    then show ?thesis using d(4) [of w g] fresh [of g] g by (auto simp: st')
  next
    case False
    then show ?thesis
      using d(4) [of w x] d(4) [of work x] fresh [of x] new(2) g by (auto simp: st')
  qed
  moreover have "map_of (pj_attempts st') a = Some k \<longleftrightarrow>
      (\<exists>x. map_of (pj_states st') k = Some x \<and> gs_attempt_id x = a)" for a k
    using d(5) [of a k] d(5) [of att k] new(1,3) g by (auto simp: st')
  ultimately show ?thesis unfolding pj_inv_def by blast
qed

lemma pj_inv_close:
  assumes inv: "pj_inv st" and g: "map_of (pj_states st) gid = Some g"
    and run: "project_close p sq g st = Inr st'"
  shows "pj_inv st'"
proof -
  obtain d' where st: "st' = st\<lparr>pj_states := dict_set (gs_generation_id g)
        (g\<lparr>gs_disposition := Some d', gs_closed_sequence := Some sq\<rparr>) (pj_states st),
      pj_active := dict_del (gs_work_id g) (pj_active st)\<rparr>"
    using project_close_Inr(2) [OF run] by blast
  define g' where "g' = g\<lparr>gs_disposition := Some d', gs_closed_sequence := Some sq\<rparr>"
  note d = pj_invD [OF inv]
  have id: "gs_generation_id g = gid" using d(3) g by blast
  have g': "gs_generation_id g' = gid" "gs_attempt_id g' = gs_attempt_id g" "\<not> gs_active g'" by (simp_all add: g'_def id)
  have st': "pj_states st' = dict_set gid g' (pj_states st)" "pj_order st' = pj_order st"
    "pj_active st' = dict_del (gs_work_id g) (pj_active st)" "pj_attempts st' = pj_attempts st"
    by (simp_all add: st g'_def id)
  have act: "map_of (pj_active st) (gs_work_id g) = Some g"
    using d(4) g id project_close_Inr(1) [OF run] by simp
  have "distinct (pj_order st')" using d(1) by (simp add: st')
  moreover have "set (pj_order st') = dom (map_of (pj_states st'))" using d(2) g by (auto simp: st')
  moreover have "gs_generation_id x = k" if "map_of (pj_states st') k = Some x" for k x
    using that d(3) g'(1) by (auto simp: st' split: if_splits)
  moreover have "map_of (pj_active st') w = Some x \<longleftrightarrow>
      map_of (pj_states st') (gs_generation_id x) = Some x \<and> gs_active x \<and> gs_work_id x = w" for w x
  proof (cases "gs_generation_id x = gid")
    case True
    have "map_of (pj_active st') w \<noteq> Some x"
    proof
      assume "map_of (pj_active st') w = Some x"
      then have w: "w \<noteq> gs_work_id g" "map_of (pj_active st) w = Some x"
        unfolding st' map_of_dict_del by (simp_all split: if_splits)
      then have "x = g" using d(4) [of w x] True g by simp
      then show False using w d(4) [of w x] by simp
    qed
    moreover have "map_of (pj_states st') (gs_generation_id x) = Some g'" by (simp add: st' True)
    ultimately show ?thesis using g'(3) by auto
  next
    case False
    have states: "map_of (pj_states st') (gs_generation_id x) = map_of (pj_states st) (gs_generation_id x)"
      using False by (simp add: st')
    have "map_of (pj_active st') w = Some x \<longleftrightarrow> map_of (pj_active st) w = Some x"
    proof (cases "w = gs_work_id g")
      case True
      then have "map_of (pj_active st) w \<noteq> Some x" using act False id by auto
      then show ?thesis using True by (simp add: st')
    qed (simp add: st')
    then show ?thesis unfolding states by (simp only: d(4))
  qed
  moreover have "map_of (pj_attempts st') a = Some k \<longleftrightarrow>
      (\<exists>x. map_of (pj_states st') k = Some x \<and> gs_attempt_id x = a)" for a k
    using d(5) [of a k] g g'(2) by (auto simp: st')
  ultimately show ?thesis unfolding pj_inv_def by blast
qed

lemma pj_inv_step:
  assumes "pj_inv st" "project_step st c = Inr st'"
  shows "pj_inv st'"
  using assms(2)
proof (cases rule: project_step_cases)
  case acquire
  then show ?thesis using pj_inv_acquire assms(1) by blast
next
  case (close g)
  then show ?thesis using pj_inv_close assms(1) by blast
next
  case keep
  then show ?thesis using assms(1) by blast
qed

lemma pj_inv_init: "pj_inv pj_init"
  by (simp add: pj_inv_def pj_init_def)

interpretation generations: replayed project_step pj_init pj_inv
  by unfold_locales (rule pj_inv_init, rule pj_inv_step)

section \<open>Reading a projection\<close>

definition generations_of :: "projecting \<Rightarrow> GenerationState list" where
  "generations_of st = map (\<lambda>gid. the (map_of (pj_states st) gid)) (pj_order st)"

lemma map_res_need:
  assumes "\<And>x. x \<in> set xs \<Longrightarrow> f x \<noteq> None"
  shows "map_res (\<lambda>x. need (f x) e) xs = Inr (map (\<lambda>x. the (f x)) xs)"
  using assms by (induction xs) (auto simp: need_def split: option.splits)

lemma project_events_iff:
  "project_events E run evs = Inr p \<longleftrightarrow>
     (\<exists>st. replay project_step pj_init (filter is_generation evs) = Inr st \<and> pj_inv st
        \<and> p = \<lparr>gp_generations = generations_of st, gp_active_by_work = pj_active st,
            gp_digest = digest_json E (projection_document run (generations_of st) (pj_active st)),
            gp_chain_head = (if filter is_generation evs = [] then ''''
              else ce_event_digest (last (filter is_generation evs)))\<rparr>)"
proof (cases "replay project_step pj_init (filter is_generation evs)")
  case (Inl e)
  then show ?thesis by (simp add: project_events_def)
next
  case (Inr st)
  then have inv: "pj_inv st" by (rule generations.inv_replay)
  then have "map_res (\<lambda>gid. need (map_of (pj_states st) gid) KeyError) (pj_order st) = Inr (generations_of st)"
    unfolding generations_of_def using pj_invD(2) by (intro map_res_need) blast
  then show ?thesis using Inr inv by (auto simp: project_events_def Let_def)
qed

lemma in_generations_iff:
  assumes "pj_inv st"
  shows "g \<in> set (generations_of st) \<longleftrightarrow> map_of (pj_states st) (gs_generation_id g) = Some g"
proof
  assume "g \<in> set (generations_of st)"
  then obtain gid where gid: "gid \<in> set (pj_order st)" "g = the (map_of (pj_states st) gid)"
    by (auto simp: generations_of_def)
  then obtain h where "map_of (pj_states st) gid = Some h" using pj_invD(2) [OF assms] by blast
  then show "map_of (pj_states st) (gs_generation_id g) = Some g"
    using gid(2) pj_invD(3) [OF assms, of gid h] by simp
next
  assume g: "map_of (pj_states st) (gs_generation_id g) = Some g"
  then have "gs_generation_id g \<in> set (pj_order st)" using pj_invD(2) [OF assms] by blast
  then show "g \<in> set (generations_of st)" using g unfolding generations_of_def by force
qed

lemma find_in_generations:
  assumes "pj_inv st"
  shows "List.find (\<lambda>g. gs_generation_id g = gid) (generations_of st) = map_of (pj_states st) gid"
proof (cases "map_of (pj_states st) gid")
  case None
  have "gs_generation_id g \<noteq> gid" if "g \<in> set (generations_of st)" for g
    using that None in_generations_iff [OF assms] by auto
  then show ?thesis using None by (simp add: find_None_iff)
next
  case (Some g)
  have id: "gs_generation_id g = gid" by (rule pj_invD(3) [OF assms Some])
  have mem: "g \<in> set (generations_of st)" unfolding in_generations_iff [OF assms] id by (rule Some)
  have "List.find (\<lambda>g. gs_generation_id g = gid) (generations_of st) \<noteq> None"
    unfolding find_None_iff using mem id by blast
  then obtain h where h: "List.find (\<lambda>g. gs_generation_id g = gid) (generations_of st) = Some h" by blast
  have "h \<in> set (generations_of st)" "gs_generation_id h = gid" using find_Some_set [OF h] by blast+
  then have "h = g" using Some in_generations_iff [OF assms, of h] by simp
  then show ?thesis using h Some by simp
qed

section \<open>Closed for good\<close>

lemma closed_step:
  assumes "pj_inv st" "project_step st c = Inr st'" "map_of (pj_states st) gid = Some g" "\<not> gs_active g"
  shows "map_of (pj_states st') gid = Some g"
  using assms(2)
proof (cases rule: project_step_cases)
  case acquire
  note a = project_acquire_Inr [OF acquire(2)]
  have "gid \<noteq> sval (ce_payload c) ''generation_id''" using a(1) assms(3) by auto
  then show ?thesis using assms(3) unfolding a(4) Let_def by simp
next
  case (close h)
  note cl = project_close_Inr [OF close(3)]
  have "gs_generation_id h = sval (ce_payload c) ''generation_id''" using pj_invD(3) [OF assms(1) close(2)] .
  moreover have "h \<noteq> g" using cl(1) assms(4) by auto
  ultimately have "gs_generation_id h \<noteq> gid" using close(2) assms(3) by auto
  then show ?thesis using cl(2) assms(3) by auto
next
  case keep
  then show ?thesis using assms(3) by simp
qed

lemma closed_replay:
  assumes "pj_inv st" "replay project_step st cs = Inr st'" "map_of (pj_states st) gid = Some g" "\<not> gs_active g"
  shows "map_of (pj_states st') gid = Some g"
  using assms
proof (induction cs arbitrary: st)
  case (Cons c cs)
  then obtain s1 where s1: "project_step st c = Inr s1" "replay project_step s1 cs = Inr st'"
    by (auto simp: bind_res_Inr_iff)
  show ?case
    using Cons.IH [OF pj_inv_step [OF Cons.prems(1) s1(1)] s1(2) closed_step [OF Cons.prems(1) s1(1) Cons.prems(3,4)] Cons.prems(4)] .
qed simp

section \<open>New identities\<close>

lemma list_all_digits_pad6: "list_all is_digit (pad6 (show_nat n))"
  using pad6_digits by (auto simp: list_all_iff)

lemma serial_of_named: "serial_of (''generation-'' @ pad6 (show_nat n)) = Some (int n)"
  by (simp add: serial_of_def Let_def list_all_digits_pad6)

lemma next_generation_above:
  "\<exists>n. serial_of (next_generation_id p) = Some n
     \<and> (\<forall>g \<in> set (gp_generations p). \<forall>m. serial_of (gs_generation_id g) = Some m \<longrightarrow> m < n)"
proof -
  define serials where "serials = List.map_filter (serial_of \<circ> gs_generation_id) (gp_generations p)"
  define n where "n = (if serials = [] then 0 else Max (set serials)) + 1"
  have pos: "0 \<le> x" if "x \<in> set serials" for x
    using that by (auto simp: serials_def map_filter_def serial_of_def Let_def split: if_splits)
  have "0 \<le> n" using pos by (auto simp: n_def intro: order_trans [OF pos Max_ge])
  have "next_generation_id p = ''generation-'' @ pad6 (show_nat (nat n))"
    using \<open>0 \<le> n\<close> by (simp add: next_generation_id_def Let_def serials_def [symmetric] n_def [symmetric] show_int_def)
  then have "serial_of (next_generation_id p) = Some n" using serial_of_named \<open>0 \<le> n\<close> by simp
  moreover have "m < n" if "m \<in> set serials" for m
  proof -
    have "serials \<noteq> []" using that by auto
    then show ?thesis using Max_ge [OF List.finite_set that] by (simp add: n_def)
  qed
  moreover have "m \<in> set serials" if "g \<in> set (gp_generations p)" "serial_of (gs_generation_id g) = Some m" for g m
    using that by (force simp: serials_def map_filter_def)
  ultimately show ?thesis by blast
qed

lemma next_generation_serial: "serial_of (next_generation_id p) \<noteq> None"
  using next_generation_above [of p] by auto

lemma next_generation_fresh: "next_generation_id p \<notin> gs_generation_id ` set (gp_generations p)"
  using next_generation_above [of p] by fastforce

section \<open>Appending a generation event\<close>

lemma redact_json_id [simp]: "redact_json id v = v"
proof (induction v)
  case (JObj kvs)
  then have "map (map_prod id (redact_json id)) kvs = kvs" by (intro map_idI) force
  then show ?case by (simp only: redact_json.simps)
next
  case (JArr xs)
  then have "map (redact_json id) xs = xs" by (intro map_idI)
  then show ?case by (simp only: redact_json.simps)
qed (simp_all only: redact_json.simps id_apply)

lemma redact_dict_id [simp]: "redact_dict id p = p"
  unfolding redact_dict_def by (rule map_idI) (simp add: map_prod_def case_prod_unfold)

lemma same_dict_sval:
  assumes "same_dict a b"
  shows "sval a k = sval b k"
  using assms sval_canon [of a k] sval_canon [of b k] unfolding same_dict_iff by simp

lemma generation_payload_fields [simp]:
  "sval (generation_payload g d n) ''event_id'' = wg_event_id g"
  "sval (generation_payload g d n) ''generation_id'' = wg_generation_id g"
  "sval (generation_payload g d n) ''work_id'' = wg_work_id g"
  "sval (generation_payload g d n) ''attempt_id'' = wg_attempt_id g"
  "sval (generation_payload g d n) ''record'' = gen_record_value (wg_record g)"
  "sval (generation_payload g d n) ''disposition'' = opt_value gen_disposition_value (wg_disposition g)"
  "sval (generation_payload g d n) ''authority'' = opt_value gen_authority_value (wg_authority g)"
  "sval (generation_payload g d n) ''classification'' = opt_value gen_classification_value (wg_classification g)"
  "sval (generation_payload g d n) ''blob_digest'' = d"
  "ival (generation_payload g d n) ''blob_bytes'' = n"
  "pget (generation_payload g d n) ''blob_digest'' = JStr d"
  "pget (generation_payload g d n) ''blob_bytes'' = JInt n"
  "pget (generation_payload g d n) ''event_id'' = JStr (wg_event_id g)"
  by (simp_all add: generation_payload_def sval_def ival_def pget_def)

lemma generation_payload_typed: "check_fields generation_fields (generation_payload g d n) sq = Inr ()"
  by code_simp

lemma EMPTY_sha: "lowercase_sha256 EMPTY_BLOB_DIGEST"
  by code_simp

lemma find_identity_None:
  assumes "\<And>c k. c \<in> set evs \<Longrightarrow> ce_event_type c = ev_type ev \<Longrightarrow> C (ev_type ev) = Some k
      \<Longrightarrow> identity_from_payload k (ce_payload c) \<noteq> ev_identity ev"
  shows "find_identity C evs ev p = Inr None"
  using assms
proof (induction evs)
  case (Cons c evs)
  have "ce_event_type c \<noteq> ev_type ev
      \<or> map_option (\<lambda>k. identity_from_payload k (ce_payload c)) (C (ce_event_type c)) \<noteq> Some (ev_identity ev)"
    using Cons.prems [of c] by (cases "C (ce_event_type c)") auto
  then show ?case using Cons by (simp add: Let_def)
qed simp

text \<open>An append whose identity nothing in the log answers for: when it returns, the log has grown by
  exactly that event and its body is sealed.\<close>

lemma append_adds:
  assumes ok: "reads_by_key C" "store_ok E C s evs" "appendable E C ev body evs s" "prepared E ev body s = (b, p)"
    and new: "find_exact_identity evs ev p = None" "find_identity C evs ev p = Inr None"
    and run: "append E C ev body s = (Inr c, s')"
  shows "store_ok E C s' (evs @ [as_read c])" "ce_payload c = p" "ce_event_type c = ev_type ev"
    "ce_sequence c = int (length evs) + 1" "st_run_id s' = st_run_id s" "map_of (st_sealed s') (sha_bytes E b) \<noteq> None"
proof -
  have read: "read_verified E C s = Inr evs" using ok(2) by (simp add: store_ok_def)
  have "refuse_after_terminal evs = Inr ()"
  proof (cases "refuse_after_terminal evs")
    case (Inl e)
    then show ?thesis using run read ok(4) new by (simp add: append_def append_new_def)
  qed simp
  then have fresh: "fresh_event C ev p evs" using new by (simp add: fresh_event_def)
  obtain r sr where e: "enters_commit E C ev p evs s r sr" and cl: "commit_locked E r ev p b evs sr = (Inr c, s')"
    using append_fresh [OF read ok(4) fresh run] by blast
  obtain rows where site: "commit_site E C sr evs rows r ev p b" using enters_commit_site [OF ok e] by blast
  note w = commit_locked_ok [OF site cl, simplified]
  obtain u o1 s1 where chk: "check_commit E r ev p evs sr = Inr u"
    and seal: "seal_blob E (rv_blob_digest r) b sr = (Inr o1, s1)"
    and s': "s' = record_reservation r (Some COMMITTED) (appended E r ev p (last_digest evs) s1)"
    using cl by (auto simp: commit_locked_unfold Let_def split: sum.splits prod.splits option.splits)
  note c = check_commit_Inr [OF chk commit_siteD(5,6) [OF site]]
  show "store_ok E C s' (evs @ [as_read c])" using w by simp
  show "ce_payload c = p" "ce_event_type c = ev_type ev" using w by (simp_all add: written_def)
  show "ce_sequence c = int (length evs) + 1"
    using w c(2) read_verified_sequences(2) [OF read] by (simp add: written_def)
  have "st_run_id sr = st_run_id s" using e reserve_locked_ok(4) [OF ok(2)] by (auto simp: enters_commit_def)
  then show "st_run_id s' = st_run_id s" using s' seal_blob_fields(1) [OF seal] by simp
  show "map_of (st_sealed s') (sha_bytes E b) \<noteq> None"
    using s' seal_blob_Inr(2) [OF seal] c(3) by simp
qed

section \<open>A sound fence\<close>

text \<open>The names that the fence gives to its events: the generation, a colon and the kind of record.\<close>

definition named_record :: "string \<Rightarrow> string \<Rightarrow> bool" where
  "named_record rec suffix =
     ((rec = ''acquire'' \<longrightarrow> suffix = ''acquire'') \<and> (rec = ''close'' \<longrightarrow> suffix = ''close'')
      \<and> (suffix = ''acquire'' \<longrightarrow> rec = ''acquire'') \<and> (suffix = ''close'' \<longrightarrow> rec = ''close''))"

definition log_named :: "CommittedEvent list \<Rightarrow> bool" where
  "log_named evs =
     (\<forall>c \<in> set evs. is_generation c \<longrightarrow>
        serial_of (sval (ce_payload c) ''generation_id'') \<noteq> None
        \<and> sval (ce_payload c) ''work_id'' \<noteq> [] \<and> sval (ce_payload c) ''attempt_id'' \<noteq> []
        \<and> (\<exists>suffix. sval (ce_payload c) ''event_id'' = sval (ce_payload c) ''generation_id'' @ CHR '':'' # suffix
             \<and> named_record (sval (ce_payload c) ''record'') suffix))"

text \<open>The redactor has nothing to redact in generation events, and the digest of the empty body is the
  one the contract names.\<close>

definition fence_ok :: "env \<Rightarrow> store \<Rightarrow> CommittedEvent list \<Rightarrow> bool" where
  "fence_ok E s evs =
     (store_ok E event_contract s evs \<and> st_redactor s = id \<and> sha_bytes E [] = EMPTY_BLOB_DIGEST
      \<and> (map_of (st_sealed s) EMPTY_BLOB_DIGEST = None \<longrightarrow> EMPTY_BLOB_DIGEST \<notin> ce_blob_digest ` set evs)
      \<and> log_named evs \<and> (\<exists>p. project_events E (st_run_id s) evs = Inr p))"

lemma not_in_parts:
  assumes "take n xs = p" "c \<notin> set p" "list_all P (drop n xs)" "\<not> P c"
  shows "c \<notin> set xs"
proof -
  have "set xs = set p \<union> set (drop n xs)"
    unfolding assms(1) [symmetric] set_append [symmetric] append_take_drop_id ..
  then show ?thesis using assms(2-4) unfolding list_all_iff by blast
qed

lemma colon_free: "serial_of gid \<noteq> None \<Longrightarrow> CHR '':'' \<notin> set gid"
proof -
  assume "serial_of gid \<noteq> None"
  then have "take 11 gid = ''generation-''" "list_all is_digit (drop 11 gid)"
    by (auto simp: serial_of_def Let_def split: if_splits)
  moreover have "CHR '':'' \<notin> set ''generation-''" by simp
  moreover have "\<not> is_digit (CHR '':'')" by code_simp
  ultimately show "CHR '':'' \<notin> set gid" using not_in_parts by metis
qed

lemma split_at_colon:
  "CHR '':'' \<notin> set a \<Longrightarrow> CHR '':'' \<notin> set b \<Longrightarrow> a @ CHR '':'' # x = b @ CHR '':'' # y \<Longrightarrow> a = b \<and> x = y"
  by (induction a arbitrary: b) (auto simp: Cons_eq_append_conv)

lemma serial_of_ne: "serial_of gid \<noteq> None \<Longrightarrow> gid \<noteq> []"
  by (auto simp: serial_of_def Let_def)

text \<open>The events by which the fence acquires and closes.\<close>

definition transition_event :: "WorkGenerationRecorded \<Rightarrow> bool" where
  "transition_event g =
     (serial_of (wg_generation_id g) \<noteq> None \<and> wg_work_id g \<noteq> [] \<and> wg_attempt_id g \<noteq> []
      \<and> wg_authority g = None \<and> wg_classification g = None
      \<and> (wg_record g = ACQUIRE \<and> wg_disposition g = None \<and> wg_event_id g = wg_generation_id g @ '':acquire''
         \<or> wg_record g = CLOSE \<and> wg_disposition g \<noteq> None \<and> wg_event_id g = wg_generation_id g @ '':close''))"

lemma transition_event_valid:
  assumes "transition_event g"
  shows "validate_generation (generation_payload g EMPTY_BLOB_DIGEST 0) n = Inr ()"
proof -
  have "gen_disposition_value d \<in> set (map gen_disposition_value all_dispositions)" for d
    by (cases d) (simp_all add: all_dispositions_def)
  moreover have "gen_disposition_value d \<noteq> []" for d by (cases d) simp_all
  moreover have "gen_record_value r \<in> set (map gen_record_value all_records)" for r
    by (cases r) (simp_all add: all_records_def)
  moreover have "wg_generation_id g \<noteq> []" "wg_event_id g \<noteq> []"
    using assms serial_of_ne by (auto simp: transition_event_def)
  ultimately show ?thesis
    using assms EMPTY_sha
    by (auto simp: validate_generation_def Let_def generation_payload_typed require_def require_empty_body_def
        transition_event_def opt_value_def guard_res_def)
qed

lemma generation_event_simps [simp]:
  "ev_type (generation_event g) = ''work-generation.recorded''"
  "ev_identity (generation_event g) = JStr (wg_event_id g)"
  "ev_payload (generation_event g) = generation_payload g"
  by (simp_all add: generation_event_def)

lemma event_contract_generation: "event_contract ''work-generation.recorded'' = Some generation_contract"
  by (simp add: event_contract_def)

lemma record_of_value [simp]: "record_of (gen_record_value r) = Some r"
  by (cases r) (simp_all add: record_of_def all_records_def)

lemma disposition_of_value [simp]: "disposition_of (gen_disposition_value d) = Some d"
  by (cases d) (simp_all add: disposition_of_def all_dispositions_def)

lemma record_of_close: "record_of r = Some CLOSE \<longleftrightarrow> r = ''close''"
  by (auto simp: record_of_def all_records_def)

lemma record_of_acquire: "record_of r = Some ACQUIRE \<longleftrightarrow> r = ''acquire''"
  by (auto simp: record_of_def all_records_def)

text \<open>Every generation named in the log is known to the projection, and one with a close record is
  closed.\<close>

lemma known_step:
  assumes "project_step st c = Inr st'" "map_of (pj_states st) gid \<noteq> None"
  shows "map_of (pj_states st') gid \<noteq> None"
  using assms(1)
proof (cases rule: project_step_cases)
  case acquire
  show ?thesis using project_acquire_Inr(4) [OF acquire(2)] assms(2) by (simp add: Let_def)
next
  case (close g)
  show ?thesis using project_close_Inr(2) [OF close(3)] assms(2) by auto
next
  case keep
  then show ?thesis using assms(2) by simp
qed

lemma named_step:
  assumes inv: "pj_inv st" and run: "project_step st c = Inr st'"
  shows "\<exists>g. map_of (pj_states st') (sval (ce_payload c) ''generation_id'') = Some g
    \<and> (sval (ce_payload c) ''record'' = ''close'' \<longrightarrow> \<not> gs_active g)"
  using run
proof (cases rule: project_step_cases)
  case acquire
  then have "sval (ce_payload c) ''record'' = ''acquire''" by (simp add: record_of_acquire)
  then show ?thesis using project_acquire_Inr(4) [OF acquire(2)] by (simp add: Let_def)
next
  case (close g)
  have "gs_generation_id g = sval (ce_payload c) ''generation_id''" using pj_invD(3) [OF inv close(2)] .
  moreover obtain d where "st' = st\<lparr>pj_states := dict_set (gs_generation_id g)
      (g\<lparr>gs_disposition := Some d, gs_closed_sequence := Some (ce_sequence c)\<rparr>) (pj_states st),
      pj_active := dict_del (gs_work_id g) (pj_active st)\<rparr>"
    using project_close_Inr(2) [OF close(3)] by blast
  ultimately show ?thesis by simp
next
  case (keep g r)
  have "record_of (sval (ce_payload c) ''record'') \<noteq> Some CLOSE" unfolding keep(1) using keep(3) by simp
  then have "sval (ce_payload c) ''record'' \<noteq> ''close''" unfolding record_of_close .
  then show ?thesis using keep(4,5) by blast
qed

lemma named_replay:
  assumes "replay project_step pj_init cs = Inr st" "c \<in> set cs"
  shows "\<exists>g. map_of (pj_states st) (sval (ce_payload c) ''generation_id'') = Some g
    \<and> (sval (ce_payload c) ''record'' = ''close'' \<longrightarrow> \<not> gs_active g)"
  using assms
proof (induction cs arbitrary: st rule: rev_induct)
  case (snoc d cs)
  obtain s1 where s1: "replay project_step pj_init cs = Inr s1" "project_step s1 d = Inr st"
    using snoc.prems(1) by (auto simp: replay_append bind_res_Inr_iff)
  have inv: "pj_inv s1" using s1(1) by (rule generations.inv_replay)
  show ?case
  proof (cases "c = d")
    case True
    then show ?thesis using named_step [OF inv s1(2)] by simp
  next
    case False
    then obtain g where g: "map_of (pj_states s1) (sval (ce_payload c) ''generation_id'') = Some g"
      "sval (ce_payload c) ''record'' = ''close'' \<longrightarrow> \<not> gs_active g"
      using snoc.IH [OF s1(1)] snoc.prems(2) by auto
    have "\<exists>h. map_of (pj_states st) (sval (ce_payload c) ''generation_id'') = Some h"
      using known_step [OF s1(2)] g(1) by force
    then show ?thesis using closed_step [OF inv s1(2) g(1)] g(2) by force
  qed
qed simp

lemma state_named:
  assumes "replay project_step pj_init cs = Inr st" "map_of (pj_states st) gid = Some g"
  shows "\<exists>c \<in> set cs. sval (ce_payload c) ''generation_id'' = gid \<and> sval (ce_payload c) ''work_id'' = gs_work_id g
    \<and> sval (ce_payload c) ''attempt_id'' = gs_attempt_id g"
  using assms
proof (induction cs arbitrary: st g rule: rev_induct)
  case Nil
  then show ?case by (auto simp: pj_init_def)
next
  case (snoc d cs)
  obtain s1 where s1: "replay project_step pj_init cs = Inr s1" "project_step s1 d = Inr st"
    using snoc.prems(1) by (auto simp: replay_append bind_res_Inr_iff)
  have inv: "pj_inv s1" using s1(1) by (rule generations.inv_replay)
  show ?case
    using s1(2)
  proof (cases rule: project_step_cases)
    case acquire
    show ?thesis
      using snoc.IH [OF s1(1), of g] snoc.prems(2) unfolding project_acquire_Inr(4) [OF acquire(2)] Let_def
      by (auto split: if_splits)
  next
    case (close h)
    have "gs_generation_id h = sval (ce_payload d) ''generation_id''" using pj_invD(3) [OF inv close(2)] .
    then have "\<exists>h. map_of (pj_states s1) gid = Some h \<and> gs_work_id h = gs_work_id g \<and> gs_attempt_id h = gs_attempt_id g"
      using project_close_Inr(2) [OF close(3)] snoc.prems(2) close(2) by (auto split: if_splits)
    then show ?thesis using snoc.IH [OF s1(1)] by auto
  next
    case keep
    then show ?thesis using snoc.IH [OF s1(1)] snoc.prems(2) by auto
  qed
qed

lemma fresh_name:
  assumes "log_named evs" "replay project_step pj_init (filter is_generation evs) = Inr st" "transition_event g"
    and "wg_record g = ACQUIRE \<Longrightarrow> map_of (pj_states st) (wg_generation_id g) = None"
    and "wg_record g = CLOSE \<Longrightarrow> \<exists>x. map_of (pj_states st) (wg_generation_id g) = Some x \<and> gs_active x"
    and "c \<in> set evs" "is_generation c"
  shows "sval (ce_payload c) ''event_id'' \<noteq> wg_event_id g"
proof
  assume eq: "sval (ce_payload c) ''event_id'' = wg_event_id g"
  let ?gid = "sval (ce_payload c) ''generation_id''" and ?rec = "sval (ce_payload c) ''record''"
  obtain suffix where s: "serial_of ?gid \<noteq> None" "sval (ce_payload c) ''event_id'' = ?gid @ CHR '':'' # suffix"
    "named_record ?rec suffix"
    using assms(1,6,7) unfolding log_named_def by blast
  have t: "serial_of (wg_generation_id g) \<noteq> None" using assms(3) by (simp add: transition_event_def)
  obtain own where own: "wg_event_id g = wg_generation_id g @ CHR '':'' # own"
    "wg_record g = ACQUIRE \<and> own = ''acquire'' \<or> wg_record g = CLOSE \<and> own = ''close''"
    using assms(3) by (auto simp: transition_event_def)
  have "?gid = wg_generation_id g \<and> suffix = own"
    using split_at_colon [OF colon_free [OF s(1)] colon_free [OF t], of suffix own] eq s(2) own(1) by simp
  moreover obtain x where "map_of (pj_states st) ?gid = Some x" "?rec = ''close'' \<longrightarrow> \<not> gs_active x"
    using named_replay [OF assms(2), of c] assms(6,7) by auto
  moreover have "suffix = ''close'' \<Longrightarrow> ?rec = ''close''" using s(3) by (simp add: named_record_def)
  ultimately show False using own(2) assms(4,5) by auto
qed

lemma fence_appended:
  assumes ok: "fence_ok E s evs" and t: "transition_event g"
    and new: "\<And>c. c \<in> set evs \<Longrightarrow> is_generation c \<Longrightarrow> sval (ce_payload c) ''event_id'' \<noteq> wg_event_id g"
    and run: "fence_append E g [] s = (Inr c, s')"
  shows "fence_ok E s' (evs @ [as_read c])" "ce_payload c = generation_payload g EMPTY_BLOB_DIGEST 0"
    "ce_sequence c = int (length evs) + 1" "is_generation (as_read c)" "st_run_id s' = st_run_id s"
proof -
  let ?ev = "generation_event g"
  have o: "store_ok E event_contract s evs" "st_redactor s = id" "sha_bytes E [] = EMPTY_BLOB_DIGEST"
    "map_of (st_sealed s) EMPTY_BLOB_DIGEST = None \<longrightarrow> EMPTY_BLOB_DIGEST \<notin> ce_blob_digest ` set evs" "log_named evs"
    using ok unfolding fence_ok_def by blast+
  have prep: "prepared E ?ev [] s = ([], generation_payload g EMPTY_BLOB_DIGEST 0)"
    by (simp add: prepared_def Let_def o(2,3) generation_event_def)
  obtain p where app: "append E event_contract ?ev [] s = (Inr c, s')" and proj: "projection E s' = (Inr p, s')"
    using run unfolding fence_append_def bind_op_def return_op_def
    by (auto simp: projection_def split: prod.splits sum.splits)
  have appendable: "appendable E event_contract ?ev [] evs s"
    unfolding appendable_def prep prod.case Let_def
    using o(3,4) transition_event_valid [OF t]
    by (simp add: event_contract_generation generation_contract_def)
  have exact: "find_exact_identity evs ?ev (generation_payload g EMPTY_BLOB_DIGEST 0) = None"
  proof -
    have "\<not> (ce_event_type q = ev_type ?ev \<and> same_dict (ce_payload q) (generation_payload g EMPTY_BLOB_DIGEST 0))"
      if "q \<in> set evs" for q
      using new [OF that] same_dict_sval [of "ce_payload q" _ "''event_id''"] by (auto simp: is_generation_def)
    then show ?thesis unfolding find_exact_identity_def find_None_iff by blast
  qed
  have ident: "find_identity event_contract evs ?ev (generation_payload g EMPTY_BLOB_DIGEST 0) = Inr None"
    using new by (intro find_identity_None)
      (auto simp: event_contract_generation generation_contract_def is_generation_def)
  note a = append_adds [OF event_contract_keyed o(1) appendable prep exact ident app]
  show "ce_payload c = generation_payload g EMPTY_BLOB_DIGEST 0" "ce_sequence c = int (length evs) + 1"
    "st_run_id s' = st_run_id s" using a by simp_all
  have gen: "is_generation (as_read c)" using a(3) by (simp add: is_generation_def as_read_def)
  then show "is_generation (as_read c)" .
  have "sval (ce_payload (as_read c)) k = sval (generation_payload g EMPTY_BLOB_DIGEST 0) k" for k
    using a(2) by (simp add: as_read_def)
  then have "log_named (evs @ [as_read c])"
    using o(5) t unfolding log_named_def
    by (auto simp: transition_event_def named_record_def)
  moreover have "\<exists>p. project_events E (st_run_id s') (evs @ [as_read c]) = Inr p"
    using proj a(1) by (auto simp: projection_def store_ok_def)
  ultimately show "fence_ok E s' (evs @ [as_read c])"
    using a(1,6) o(2,3) append_redactor [OF app] unfolding fence_ok_def by auto
qed

section \<open>The operations on a sound fence\<close>

lemma fence_okD:
  assumes "fence_ok E s evs"
  obtains st p where "read_verified E event_contract s = Inr evs" "replay project_step pj_init (filter is_generation evs) = Inr st"
    "pj_inv st" "projection E s = (Inr p, s)" "gp_generations p = generations_of st" "gp_active_by_work p = pj_active st"
proof -
  have r: "read_verified E event_contract s = Inr evs" using assms by (simp add: fence_ok_def store_ok_def)
  obtain p where p: "project_events E (st_run_id s) evs = Inr p" using assms by (auto simp: fence_ok_def)
  then have "projection E s = (Inr p, s)" using r by (simp add: projection_def)
  with r p show ?thesis using that unfolding project_events_iff by fastforce
qed

lemma fence_step:
  assumes ok: "fence_ok E s evs" and t: "transition_event g"
    and st: "replay project_step pj_init (filter is_generation evs) = Inr st"
    and acq: "wg_record g = ACQUIRE \<Longrightarrow> map_of (pj_states st) (wg_generation_id g) = None"
    and cl: "wg_record g = CLOSE \<Longrightarrow> \<exists>x. map_of (pj_states st) (wg_generation_id g) = Some x \<and> gs_active x"
    and run: "fence_append E g [] s = (Inr c, s')"
  shows "fence_ok E s' (evs @ [as_read c])"
    "\<exists>st'. replay project_step pj_init (filter is_generation (evs @ [as_read c])) = Inr st'
      \<and> project_step st (as_read c) = Inr st'"
    "ce_payload c = generation_payload g EMPTY_BLOB_DIGEST 0" "ce_sequence c = int (length evs) + 1"
proof -
  have "log_named evs" using ok by (simp add: fence_ok_def)
  note f = fence_appended [OF ok t fresh_name [OF this st t acq cl] run]
  show ok': "fence_ok E s' (evs @ [as_read c])" "ce_payload c = generation_payload g EMPTY_BLOB_DIGEST 0"
    "ce_sequence c = int (length evs) + 1" using f by blast+
  obtain st' where "replay project_step pj_init (filter is_generation (evs @ [as_read c])) = Inr st'"
    using fence_okD [OF ok'(1)] by metis
  moreover from this have "project_step st (as_read c) = Inr st'" using st f(4) by (simp add: replay_append bind_res_Inr_iff)
  ultimately show "\<exists>st'. replay project_step pj_init (filter is_generation (evs @ [as_read c])) = Inr st'
      \<and> project_step st (as_read c) = Inr st'" by blast
qed

lemma project_step_acquire:
  assumes "record_of (sval (ce_payload c) ''record'') = Some ACQUIRE"
  shows "project_step st c = project_acquire (sval (ce_payload c) ''generation_id'') (sval (ce_payload c) ''work_id'')
    (sval (ce_payload c) ''attempt_id'') (ce_sequence c) st"
  using assms by (simp add: project_step_def Let_def)

lemma acquire_as_step:
  assumes ok: "fence_ok E s evs" and st: "replay project_step pj_init (filter is_generation evs) = Inr st"
    and new: "map_of (pj_states st) gid = None" and ids: "serial_of gid \<noteq> None" "work \<noteq> []" "att \<noteq> []"
    and run: "acquire_as E now gid work att s = (Inr i, s')"
  shows "i = \<lparr>gi_generation_id = gid, gi_work_id = work, gi_attempt_id = att\<rparr>"
    "\<exists>evs' st'. fence_ok E s' evs' \<and> replay project_step pj_init (filter is_generation evs') = Inr st'
      \<and> project_acquire gid work att (int (length evs) + 1) st = Inr st'"
proof -
  let ?g = "acquire_event gid work att (now s)"
  obtain c where c: "fence_append E ?g [] s = (Inr c, s')" and i: "i = \<lparr>gi_generation_id = gid, gi_work_id = work, gi_attempt_id = att\<rparr>"
    using run unfolding acquire_as_def bind_op_def return_op_def by (auto split: prod.splits sum.splits)
  show "i = \<lparr>gi_generation_id = gid, gi_work_id = work, gi_attempt_id = att\<rparr>" by (rule i)
  have t: "transition_event ?g" using ids by (simp add: transition_event_def acquire_event_def)
  have "wg_record ?g = ACQUIRE" "wg_generation_id ?g = gid" by (simp_all add: acquire_event_def)
  then have "map_of (pj_states st) (wg_generation_id ?g) = None"
    "wg_record ?g = CLOSE \<Longrightarrow> \<exists>x. map_of (pj_states st) (wg_generation_id ?g) = Some x \<and> gs_active x"
    using new by simp_all
  note f = fence_step [OF ok t st this c]
  obtain st' where st': "replay project_step pj_init (filter is_generation (evs @ [as_read c])) = Inr st'"
    "project_step st (as_read c) = Inr st'" using f(2) by blast
  have "project_acquire gid work att (int (length evs) + 1) st = Inr st'"
    using st'(2) project_step_acquire [of "as_read c" st] f(3,4) by (simp add: acquire_event_def record_of_acquire)
  then show "\<exists>evs' st'. fence_ok E s' evs' \<and> replay project_step pj_init (filter is_generation evs') = Inr st'
      \<and> project_acquire gid work att (int (length evs) + 1) st = Inr st'"
    using f(1) st'(1) by blast
qed

lemma known_ids:
  assumes "fence_ok E s evs" "replay project_step pj_init (filter is_generation evs) = Inr st" "map_of (pj_states st) gid = Some g"
  shows "serial_of gid \<noteq> None" "gs_work_id g \<noteq> []" "gs_attempt_id g \<noteq> []"
proof -
  have "log_named evs" using assms(1) by (simp add: fence_ok_def)
  moreover obtain c where "c \<in> set evs" "is_generation c" "sval (ce_payload c) ''generation_id'' = gid"
    "sval (ce_payload c) ''work_id'' = gs_work_id g" "sval (ce_payload c) ''attempt_id'' = gs_attempt_id g"
    using state_named [OF assms(2,3)] unfolding set_filter by blast
  ultimately show "serial_of gid \<noteq> None" "gs_work_id g \<noteq> []" "gs_attempt_id g \<noteq> []"
    unfolding log_named_def by metis+
qed

lemma close_step:
  assumes ok: "fence_ok E s evs" and st: "replay project_step pj_init (filter is_generation evs) = Inr st"
    and run: "close E now gid d s = (Inr u, s')"
  shows "\<exists>g. map_of (pj_states st) gid = Some g
    \<and> (if gs_active g
       then \<exists>evs' st'. fence_ok E s' evs' \<and> replay project_step pj_init (filter is_generation evs') = Inr st'
         \<and> st' = st\<lparr>pj_states := dict_set gid (g\<lparr>gs_disposition := Some d, gs_closed_sequence := Some (int (length evs) + 1)\<rparr>) (pj_states st),
             pj_active := dict_del (gs_work_id g) (pj_active st)\<rparr>
       else gs_disposition g = Some d \<and> s' = s)"
proof -
  obtain st0 p where inv: "pj_inv st" and p: "projection E s = (Inr p, s)" "gp_generations p = generations_of st"
    using fence_okD [OF ok] st by (metis sum.inject(2))
  obtain g where g: "map_of (pj_states st) gid = Some g"
    using run p find_in_generations [OF inv, of gid]
    by (cases "map_of (pj_states st) gid") (auto simp: close_def bind_op_def return_op_def state_for_def need_def)
  have gid: "gs_generation_id g = gid" using pj_invD(3) [OF inv g] .
  have run': "(if \<not> gs_active g then return_op (if gs_disposition g = Some d then Inr () else Inl GenerationConflict)
     else (\<lambda>s. bind_op (fence_append E (close_event g d (now s)) []) (\<lambda>_. return_op (Inr ())) s)) s = (Inr u, s')"
    using run p find_in_generations [OF inv, of gid] g by (simp add: close_def bind_op_def return_op_def state_for_def need_def)
  show ?thesis
  proof (cases "gs_active g")
    case False
    then show ?thesis using run' g by (auto simp: return_op_def split: if_splits)
  next
    case True
    obtain c where c: "fence_append E (close_event g d (now s)) [] s = (Inr c, s')"
      using run' True unfolding bind_op_def return_op_def by (auto split: prod.splits sum.splits)
    have t: "transition_event (close_event g d (now s))"
      using known_ids [OF ok st g] gid by (simp add: transition_event_def close_event_def)
    let ?e = "close_event g d (now s)"
    have "wg_record ?e = CLOSE" "wg_generation_id ?e = gid" by (simp_all add: close_event_def gid)
    then have "wg_record ?e = ACQUIRE \<Longrightarrow> map_of (pj_states st) (wg_generation_id ?e) = None"
      "\<exists>x. map_of (pj_states st) (wg_generation_id ?e) = Some x \<and> gs_active x"
      using g True by simp_all
    note f = fence_step [OF ok t st this c]
    obtain st' where st': "replay project_step pj_init (filter is_generation (evs @ [as_read c])) = Inr st'"
      "project_step st (as_read c) = Inr st'" using f(2) by blast
    have payload: "sval (ce_payload c) ''record'' = ''close''" "sval (ce_payload c) ''generation_id'' = gid"
      "sval (ce_payload c) ''disposition'' = gen_disposition_value d" "ce_sequence c = int (length evs) + 1"
      using f(3,4) by (simp_all add: opt_value_def close_event_def gid)
    have "st' = st\<lparr>pj_states := dict_set gid (g\<lparr>gs_disposition := Some d, gs_closed_sequence := Some (int (length evs) + 1)\<rparr>) (pj_states st),
        pj_active := dict_del (gs_work_id g) (pj_active st)\<rparr>"
      using st'(2)
    proof (cases rule: project_step_cases)
      case (close h)
      then have "h = g" using g by (simp add: payload)
      then show ?thesis using project_close_Inr(2) [OF close(3)] by (auto simp: payload gid)
    qed (use record_of_value [of CLOSE] in \<open>auto simp: payload record_of_acquire\<close>)
    then show ?thesis using f(1) g True st'(1) by auto
  qed
qed

text \<open>Closing a list of generations: each that is active is interrupted, every other is as it was.\<close>

definition interrupted :: "string list \<Rightarrow> projecting \<Rightarrow> projecting \<Rightarrow> bool" where
  "interrupted gids st st' =
     (pj_order st' = pj_order st \<and>
      (\<forall>gid g. map_of (pj_states st) gid = Some g \<longrightarrow>
         (\<exists>q. map_of (pj_states st') gid = Some
           (if gid \<in> set gids \<and> gs_active g
            then g\<lparr>gs_disposition := Some INTERRUPT, gs_closed_sequence := Some q\<rparr> else g))))"

lemma interrupted_trans:
  assumes "interrupted [gid] st s1" "interrupted gids s1 st'"
  shows "interrupted (gid # gids) st st'"
proof -
  have "\<exists>q. map_of (pj_states st') k = Some (if k \<in> set (gid # gids) \<and> gs_active g
      then g\<lparr>gs_disposition := Some INTERRUPT, gs_closed_sequence := Some q\<rparr> else g)"
    if g: "map_of (pj_states st) k = Some g" for k g
  proof -
    obtain q where q: "map_of (pj_states s1) k = Some (if k \<in> set [gid] \<and> gs_active g
        then g\<lparr>gs_disposition := Some INTERRUPT, gs_closed_sequence := Some q\<rparr> else g)"
      using assms(1) g unfolding interrupted_def by blast
    obtain q' where q': "map_of (pj_states st') k = Some (let h = (if k \<in> set [gid] \<and> gs_active g
        then g\<lparr>gs_disposition := Some INTERRUPT, gs_closed_sequence := Some q\<rparr> else g) in
        if k \<in> set gids \<and> gs_active h
        then h\<lparr>gs_disposition := Some INTERRUPT, gs_closed_sequence := Some q'\<rparr> else h)"
      using assms(2) q unfolding interrupted_def Let_def by blast
    show ?thesis
    proof (cases "k = gid \<and> gs_active g")
      case True
      then show ?thesis using q' by (auto simp: Let_def)
    next
      case False
      then show ?thesis using q' by (auto simp: Let_def)
    qed
  qed
  then show ?thesis using assms unfolding interrupted_def by simp
qed

lemma close_all_interrupts:
  assumes "fence_ok E s evs" "replay project_step pj_init (filter is_generation evs) = Inr st"
    and "close_all E now gids s = (Inr u, s')"
  shows "\<exists>evs' st'. fence_ok E s' evs' \<and> replay project_step pj_init (filter is_generation evs') = Inr st'
    \<and> interrupted gids st st'"
  using assms
proof (induction gids arbitrary: s evs st)
  case Nil
  then show ?case by (auto simp: return_op_def interrupted_def)
next
  case (Cons gid gids)
  obtain v s1 where c: "close E now gid INTERRUPT s = (Inr v, s1)" and rest: "close_all E now gids s1 = (Inr u, s')"
    using Cons.prems(3) by (auto simp: bind_op_def split: prod.splits sum.splits)
  have "\<exists>ev1 st1. fence_ok E s1 ev1 \<and> replay project_step pj_init (filter is_generation ev1) = Inr st1
      \<and> interrupted [gid] st st1"
  proof -
    obtain g where g: "map_of (pj_states st) gid = Some g" and
      "if gs_active g
       then \<exists>evs' st'. fence_ok E s1 evs' \<and> replay project_step pj_init (filter is_generation evs') = Inr st'
         \<and> st' = st\<lparr>pj_states := dict_set gid (g\<lparr>gs_disposition := Some INTERRUPT, gs_closed_sequence := Some (int (length evs) + 1)\<rparr>) (pj_states st),
             pj_active := dict_del (gs_work_id g) (pj_active st)\<rparr>
       else gs_disposition g = Some INTERRUPT \<and> s1 = s"
      using close_step [OF Cons.prems(1,2) c] by blast
    moreover have "interrupted [gid] st (st\<lparr>pj_states := dict_set gid (g\<lparr>gs_disposition := Some INTERRUPT,
        gs_closed_sequence := Some q\<rparr>) (pj_states st), pj_active := A\<rparr>)" if "gs_active g" for q A
      using g that by (auto simp: interrupted_def)
    moreover have "interrupted [gid] st st" if "\<not> gs_active g"
      using g that by (auto simp: interrupted_def)
    ultimately show ?thesis using Cons.prems(1,2) by (cases "gs_active g") auto
  qed
  then obtain ev1 st1 where one: "fence_ok E s1 ev1" "replay project_step pj_init (filter is_generation ev1) = Inr st1"
    "interrupted [gid] st st1" by blast
  then show ?case using Cons.IH [OF one(1,2) rest] interrupted_trans by blast
qed

lemma interrupted_generations:
  assumes "pj_inv st" "pj_inv st'" "interrupted (map gs_generation_id (filter gs_active (generations_of st))) st st'"
  shows "list_all2 (\<lambda>g g'. if gs_active g then \<exists>q. g' = g\<lparr>gs_disposition := Some INTERRUPT, gs_closed_sequence := Some q\<rparr>
      else g' = g) (generations_of st) (generations_of st')" (is "list_all2 ?P _ _")
    "pj_active st' = []"
proof -
  have order: "pj_order st' = pj_order st" using assms(3) by (simp add: interrupted_def)
  have step: "?P (the (map_of (pj_states st) k)) (the (map_of (pj_states st') k))" if "k \<in> set (pj_order st)" for k
  proof -
    have "k \<in> dom (map_of (pj_states st))" using that unfolding pj_invD(2) [OF assms(1)] .
    then obtain g where g: "map_of (pj_states st) k = Some g" by blast
    have k: "gs_generation_id g = k" using pj_invD(3) [OF assms(1) g] .
    have act: "gs_active g \<Longrightarrow> k \<in> set (map gs_generation_id (filter gs_active (generations_of st)))"
      using in_generations_iff [OF assms(1), of g] g k by force
    obtain q where "map_of (pj_states st') k = Some
        (if k \<in> set (map gs_generation_id (filter gs_active (generations_of st))) \<and> gs_active g
         then g\<lparr>gs_disposition := Some INTERRUPT, gs_closed_sequence := Some q\<rparr> else g)"
      using assms(3) g unfolding interrupted_def by blast
    then have "map_of (pj_states st') k = Some
        (if gs_active g then g\<lparr>gs_disposition := Some INTERRUPT, gs_closed_sequence := Some q\<rparr> else g)"
      using act by (cases "gs_active g") auto
    then show ?thesis unfolding g option.sel by (cases "gs_active g") auto
  qed
  then show "list_all2 ?P (generations_of st) (generations_of st')"
    unfolding generations_of_def order by (simp add: list_all2_map1 list_all2_map2 list.rel_refl_strong)
  have "map_of (pj_active st') w = None" for w
  proof (cases "map_of (pj_active st') w")
    case (Some g)
    then have g: "map_of (pj_states st') (gs_generation_id g) = Some g" "gs_active g"
      using pj_invD(4) [OF assms(2)] by blast+
    then have "gs_generation_id g \<in> dom (map_of (pj_states st'))" by blast
    then have k: "gs_generation_id g \<in> set (pj_order st)" unfolding order [symmetric] pj_invD(2) [OF assms(2)] .
    have "\<not> gs_active y" if "?P x y" for x y using that by (cases "gs_active x") auto
    then show ?thesis using step [OF k] g by fastforce
  qed simp
  then show "pj_active st' = []" by (simp only: map_of_eq_empty_iff [symmetric] fun_eq_iff) simp
qed

lemma distinct_generations:
  assumes "pj_inv st"
  shows "distinct (map gs_generation_id (generations_of st))"
proof -
  have "gs_generation_id (the (map_of (pj_states st) k)) = k" if "k \<in> set (pj_order st)" for k
  proof -
    have "k \<in> dom (map_of (pj_states st))" using that unfolding pj_invD(2) [OF assms] .
    then show ?thesis using pj_invD(3) [OF assms] by force
  qed
  then have "map gs_generation_id (generations_of st) = pj_order st"
    unfolding generations_of_def by (simp add: map_idI comp_def)
  then show ?thesis using pj_invD(1) [OF assms] by simp
qed

lemma find_states:
  assumes "pj_inv st" "gp_generations p = generations_of st"
  shows "state_for p gid = need (map_of (pj_states st) gid) UnknownGeneration"
  using find_in_generations [OF assms(1)] assms(2) by (simp add: state_for_def)

lemma closed_for_good:
  assumes "project_events E run evs = Inr p" "state_for p gid = Inr g" "\<not> gs_active g"
    and "project_events E run' (evs @ later) = Inr p'"
  shows "state_for p' gid = Inr g"
proof -
  obtain st where st: "replay project_step pj_init (filter is_generation evs) = Inr st" "pj_inv st" "gp_generations p = generations_of st"
    using assms(1) unfolding project_events_iff by auto
  obtain st' where st': "replay project_step pj_init (filter is_generation (evs @ later)) = Inr st'" "pj_inv st'"
    "gp_generations p' = generations_of st'"
    using assms(4) unfolding project_events_iff by auto
  have g: "map_of (pj_states st) gid = Some g" using assms(2) find_states [OF st(2,3)] by (auto simp: need_def split: option.splits)
  have "replay project_step st (filter is_generation later) = Inr st'" using st(1) st'(1) by (simp add: replay_append)
  then have "map_of (pj_states st') gid = Some g" using closed_replay [OF st(2) _ g assms(3)] by blast
  then show ?thesis using find_states [OF st'(2,3)] by (simp add: need_def)
qed

lemma not_known:
  assumes "pj_inv st" "gid \<notin> gs_generation_id ` set (generations_of st)"
  shows "map_of (pj_states st) gid = None"
proof (cases "map_of (pj_states st) gid")
  case (Some g)
  then have "gs_generation_id g = gid" using pj_invD(3) [OF assms(1)] by blast
  then have "g \<in> set (generations_of st)" using in_generations_iff [OF assms(1)] Some by blast
  then show ?thesis using assms(2) \<open>gs_generation_id g = gid\<close> by blast
qed simp

lemma acquired_generations:
  assumes "pj_inv st" "project_acquire gid work att sq st = Inr st'"
  shows "\<exists>g. generations_of st' = generations_of st @ [g] \<and> gs_active g \<and> gs_generation_id g = gid \<and> gs_work_id g = work
    \<and> gs_attempt_id g = att \<and> (\<forall>w. map_of (pj_active st') w = (if w = work then Some g else map_of (pj_active st) w))"
proof -
  note a = project_acquire_Inr [OF assms(2), unfolded Let_def]
  have new: "gid \<notin> set (pj_order st)" unfolding pj_invD(2) [OF assms(1)] using a(1) by blast
  have "map (\<lambda>k. the (map_of (dict_set gid g (pj_states st)) k)) (pj_order st)
      = map (\<lambda>k. the (map_of (pj_states st) k)) (pj_order st)" for g
    using new by (intro map_cong) auto
  then show ?thesis unfolding generations_of_def a(4) by auto
qed

lemma acquire_sound:
  assumes ok: "fence_ok E s evs" and run: "acquire E now work att s = (Inr i, s')"
    and st: "replay project_step pj_init (filter is_generation evs) = Inr st" "pj_inv st"
    and p: "projection E s = (Inr p, s)" "gp_generations p = generations_of st"
  shows "i = \<lparr>gi_generation_id = next_generation_id p, gi_work_id = work, gi_attempt_id = att\<rparr>"
    "\<exists>evs' st'. fence_ok E s' evs' \<and> replay project_step pj_init (filter is_generation evs') = Inr st'
      \<and> project_acquire (next_generation_id p) work att (int (length evs) + 1) st = Inr st'"
proof -
  have ne: "work \<noteq> []" "att \<noteq> []" and as: "acquire_as E now (next_generation_id p) work att s = (Inr i, s')"
    using run p(1) by (auto simp: acquire_def bind_op_def return_op_def guard_res_def split: if_splits sum.splits)
  have "map_of (pj_states st) (next_generation_id p) = None"
    by (rule not_known [OF st(2)]) (use next_generation_fresh [of p] p(2) in simp)
  note a = acquire_as_step [OF ok st(1) this next_generation_serial ne as]
  show "i = \<lparr>gi_generation_id = next_generation_id p, gi_work_id = work, gi_attempt_id = att\<rparr>"
    "\<exists>evs' st'. fence_ok E s' evs' \<and> replay project_step pj_init (filter is_generation evs') = Inr st'
      \<and> project_acquire (next_generation_id p) work att (int (length evs) + 1) st = Inr st'"
    by (rule a)+
qed

end
