(* ===== verification/Work_Generation_Properties.thy ===== *)
theory Work_Generation_Properties
  imports Work_Generation_Laws
begin

text \<open>
  What the generation fence of \<open>src/solver/work_generation.py\<close> promises: a Work has at most one active
  generation and an Attempt at most one generation; a closed generation never regains authority, however
  the Run's log grows; acquiring, closing and the reconciliation at restart do to the stored log what they
  return; and what the missing lock of \<open>acquire\<close> allows.
\<close>

text \<open>C25. However the log of a Run grew, its projection (\<open>_project_events\<close>) lists each generation once
  and each Attempt under one generation, has at most one active generation per Work, and its table of
  active Work holds exactly the active generations.\<close>

theorem generations_exclusive:
  assumes "project_events E run evs = Inr p"
  shows "distinct (map gs_generation_id (gp_generations p)) \<and> distinct (map gs_attempt_id (gp_generations p))
    \<and> distinct (map gs_work_id (filter gs_active (gp_generations p)))
    \<and> (\<forall>w g. map_of (gp_active_by_work p) w = Some g \<longleftrightarrow>
         g \<in> set (gp_generations p) \<and> gs_active g \<and> gs_work_id g = w)"
proof -
  obtain st where inv: "pj_inv st" and p: "gp_generations p = generations_of st" "gp_active_by_work p = pj_active st"
    using assms unfolding project_events_iff by auto
  have ids: "distinct (map gs_generation_id (generations_of st))" by (rule distinct_generations [OF inv])
  have att: "g = h" if "g \<in> set (generations_of st)" "h \<in> set (generations_of st)" "gs_attempt_id g = gs_attempt_id h" for g h
    using that pj_invD(5) [OF inv] unfolding in_generations_iff [OF inv] by (metis option.inject)
  have work: "g = h" if "g \<in> set (generations_of st)" "gs_active g" "h \<in> set (generations_of st)" "gs_active h"
    "gs_work_id g = gs_work_id h" for g h
    using that pj_invD(4) [OF inv] unfolding in_generations_iff [OF inv] by (metis option.inject)
  have d: "distinct (generations_of st)" using ids unfolding distinct_map by blast
  have "distinct (map gs_attempt_id (generations_of st))"
    using d att by (auto simp: distinct_map inj_on_def)
  moreover have "distinct (map gs_work_id (filter gs_active (generations_of st)))"
    using d work by (auto simp: distinct_map inj_on_def)
  moreover have "map_of (pj_active st) w = Some g \<longleftrightarrow> g \<in> set (generations_of st) \<and> gs_active g \<and> gs_work_id g = w" for w g
    unfolding pj_invD(4) [OF inv] in_generations_iff [OF inv] by blast
  ultimately show ?thesis using ids p by simp
qed

text \<open>A cheaper digest for the concrete runs: the number of members of the document.\<close>

definition demo_digest :: "json \<Rightarrow> string" where
  "demo_digest v = (case v of JObj kvs \<Rightarrow>
     (case map_of kvs ''event_id'' of Some (JStr t) \<Rightarrow> t | _ \<Rightarrow> show_nat (length kvs)) | _ \<Rightarrow> [])"

definition demo_short :: env where
  "demo_short = demo_env\<lparr>sha_json := demo_digest\<rparr>"

definition demo_now :: "store \<Rightarrow> string" where
  "demo_now s = ''t''"

text \<open>A Run in which \<open>w\<close> is acquired and then superseded; the store after each step.\<close>

definition demo_held :: store where
  "demo_held = snd (acquire demo_short demo_now ''w'' ''a'' demo_store)"

definition demo_closed :: store where
  "demo_closed = snd (close demo_short demo_now ''generation-000001'' SUPERSEDE demo_held)"

lemma demo_fence_ok: "fence_ok demo_short demo_store []"
proof -
  have "store_ok demo_short event_contract demo_store []" unfolding demo_store_def by (rule empty_store_ok)
  moreover have "st_redactor demo_store = id" "st_sealed demo_store = []" "sha_bytes demo_short [] = EMPTY_BLOB_DIGEST"
    by (simp_all add: demo_store_def empty_store_def demo_short_def demo_env_def)
  ultimately show ?thesis by (simp add: fence_ok_def log_named_def project_events_iff pj_inv_init)
qed



lemma demo_held_ok: "\<exists>evs. fence_ok demo_short demo_held evs"
proof -
  have "fst (acquire demo_short demo_now ''w'' ''a'' demo_store) =
      Inr \<lparr>gi_generation_id = ''generation-000001'', gi_work_id = ''w'', gi_attempt_id = ''a''\<rparr>" by code_simp
  then have run: "acquire demo_short demo_now ''w'' ''a'' demo_store =
      (Inr \<lparr>gi_generation_id = ''generation-000001'', gi_work_id = ''w'', gi_attempt_id = ''a''\<rparr>, demo_held)"
    unfolding demo_held_def by (simp add: prod_eq_iff)
  obtain st p where "replay project_step pj_init (filter is_generation []) = Inr st" "pj_inv st"
    "projection demo_short demo_store = (Inr p, demo_store)" "gp_generations p = generations_of st"
    using fence_okD [OF demo_fence_ok] by metis
  from acquire_sound(2) [OF demo_fence_ok run this] show ?thesis by blast
qed

lemma demo_closed_run:
  "case read_verified demo_short event_contract demo_closed of Inl _ \<Rightarrow> False
   | Inr evs \<Rightarrow> (case project_events demo_short ''run-1'' evs of Inl _ \<Rightarrow> False
     | Inr p \<Rightarrow> (case state_for p ''generation-000001'' of Inl _ \<Rightarrow> False
       | Inr g \<Rightarrow> gs_disposition g = Some SUPERSEDE \<and> gs_work_id g = ''w''))"
  by code_simp

theorem generations_exclusive_witness:
  "\<exists>evs p. project_events demo_short ''run-1'' evs = Inr p \<and> gp_generations p \<noteq> []
     \<and> distinct (map gs_generation_id (gp_generations p))"
proof -
  obtain evs p where "project_events demo_short ''run-1'' evs = Inr p" "gp_generations p \<noteq> []"
    using demo_closed_run by (fastforce simp: state_for_def need_def split: sum.splits)
  then show ?thesis using generations_exclusive [of demo_short "''run-1''" evs p] by blast
qed

text \<open>C26. A generation that the log has closed is fenced out for good: in every state of the store whose
  log extends that log, \<open>authorize_and_commit\<close> for it never accepts, classifies the attempt by the
  disposition with which it was closed, and gives the same outcome and the same store for every callback,
  so that the callback's write is never reached.\<close>

theorem closed_fenced_out:
  fixes commits commits' :: "AuthorityGrant \<Rightarrow> 'a op"
  assumes "project_events E run evs = Inr p" "state_for p gid = Inr g" "\<not> gs_active g"
    and "read_verified E event_contract s = Inr (evs @ later)"
    and "authorize_and_commit E now gid a commits evidence s = (Inr (decision, r), s')"
  shows "\<not> au_accepted decision \<and> au_classification decision = late_classification g \<and> r = None
    \<and> authorize_and_commit E now gid a commits' evidence s = (Inr (decision, r), s')"
proof -
  obtain out where out: "projection E s = (out, s)" by (simp add: projection_def)
  then obtain p' where p': "out = Inr p'"
    using assms(5) by (cases out) (auto simp: authorize_and_commit_def authorize_inner_def bind_op_def)
  then have "project_events E (st_run_id s) (evs @ later) = Inr p'" using out assms(4) by (simp add: projection_def)
  then have g: "state_for p' gid = Inr g" by (rule closed_for_good [OF assms(1-3)])
  obtain d where "gs_disposition g = Some d" using assms(3) by blast
  then have inner: "authorize_inner E now gid a evidence s =
      bind_op (next_late_event_id E gid) (\<lambda>eid.
      bind_op (\<lambda>s. fence_append E (authority_event eid g LATE_EVENT a (late_classification g) (now s)) evidence s) (\<lambda>_.
      return_op (Inr (\<lparr>au_accepted = False, au_classification = late_classification g\<rparr>, None)))) s"
    using out p' g by (simp add: authorize_inner_def bind_op_def return_op_def)
  then have "authorize_inner E now gid a evidence s =
      (Inr (\<lparr>au_accepted = False, au_classification = late_classification g\<rparr>, None), s')"
    using assms(5) unfolding authorize_and_commit_def
    by (auto simp: bind_op_def return_op_def split: prod.splits sum.splits)
  then show ?thesis using assms(5) by (auto simp: authorize_and_commit_def bind_op_def return_op_def)
qed

theorem closed_fenced_out_witness:
  "\<exists>evs p g decision s'. project_events demo_short ''run-1'' evs = Inr p \<and> state_for p ''generation-000001'' = Inr g
     \<and> \<not> gs_active g \<and> read_verified demo_short event_contract demo_closed = Inr (evs @ [])
     \<and> authorize_and_commit demo_short demo_now ''generation-000001'' CARRY (\<lambda>_. return_op (Inr ())) [] demo_closed
         = (Inr (decision, None), s')
     \<and> \<not> au_accepted decision \<and> au_classification decision = SUPERSEDED"
proof -
  let ?run = "authorize_and_commit demo_short demo_now ''generation-000001'' CARRY (\<lambda>_. return_op (Inr ())) [] demo_closed"
  obtain evs p g where a: "project_events demo_short ''run-1'' evs = Inr p" "state_for p ''generation-000001'' = Inr g"
    "gs_disposition g = Some SUPERSEDE" "read_verified demo_short event_contract demo_closed = Inr (evs @ [])"
    using demo_closed_run by (fastforce split: sum.splits)
  have "\<not> isl (fst ?run)" by code_simp
  then obtain d r s' where run: "?run = (Inr (d, r), s')" by (cases ?run; cases "fst ?run") auto
  have "\<not> gs_active g" using a(3) by simp
  from closed_fenced_out [OF a(1,2) this a(4) run] show ?thesis
    using a run by (fastforce simp: late_classification_def)
qed








end
