(* ===== verification/Write_Reservation.thy ===== *)
theory Write_Reservation
  imports Event_Store
begin

text \<open>
  Authority space: \<open>solver/write_reservation_contracts.py\<close>, \<open>solver/write_reservation_storage.py\<close>,
  \<open>solver/write_reservation.py\<close> and \<open>solver/write_reservation_receipt.py\<close>.

  An \<open>authority\<close> is what lies under \<open>write-authority/\<close>: the sealed profile, and for each pool a
  ledger of fixed records (the filled ones; the profile's \<open>operations\<close> says how many there are), the
  number of bytes left in the preallocated extent and the precreated object slots with their contents.
  A slot holds one canonical document or is empty.  Every operation is one critical section of the
  file lock.  \<open>wenv\<close> holds what the operations take from outside: digests, the length of a document's
  canonical bytes, the redactor, the hook, the stored proof that a receipt quotes, and for each file
  operation that the code expects to fail whether it does and whether it took effect first.
\<close>

section \<open>Contracts\<close>

record Capacity =
  cp_bytes :: int
  cp_objects :: int
  cp_operations :: int
  cp_create :: int
  cp_append :: int
  cp_rename :: int
  cp_unlink :: int
  cp_durability :: int

definition capacity_values :: "Capacity \<Rightarrow> (string \<times> int) list" where
  "capacity_values c =
     [(''bytes'', cp_bytes c), (''objects'', cp_objects c), (''operations'', cp_operations c),
      (''create'', cp_create c), (''append'', cp_append c), (''rename'', cp_rename c),
      (''unlink'', cp_unlink c), (''durability'', cp_durability c)]"

text \<open>\<open>__post_init__\<close>\<close>

definition new_capacity :: "Capacity \<Rightarrow> Capacity res" where
  "new_capacity c = (if list_ex (\<lambda>(_, v). v < 0) (capacity_values c) then Inl ValueError else Inr c)"

definition capacity :: "int \<Rightarrow> int \<Rightarrow> int \<Rightarrow> Capacity" where
  "capacity b n k =
     \<lparr>cp_bytes = b, cp_objects = n, cp_operations = k, cp_create = 0, cp_append = 0, cp_rename = 0,
      cp_unlink = 0, cp_durability = 0\<rparr>"

definition capacity_document :: "Capacity \<Rightarrow> payload" where
  "capacity_document c =
     (let vs = map (\<lambda>(k, v). (k, JInt v)) (capacity_values c)
      in if \<not> list_ex (\<lambda>(_, v). v \<noteq> 0) (drop 3 (capacity_values c)) then take 3 vs else vs)"

definition fits :: "Capacity \<Rightarrow> Capacity \<Rightarrow> bool" where
  "fits c n = list_all (\<lambda>((_, got), (_, want)). want \<le> got) (zip (capacity_values c) (capacity_values n))"

definition capacity_sub :: "Capacity \<Rightarrow> Capacity \<Rightarrow> Capacity res" where
  "capacity_sub a b = new_capacity
     \<lparr>cp_bytes = cp_bytes a - cp_bytes b, cp_objects = cp_objects a - cp_objects b,
      cp_operations = cp_operations a - cp_operations b, cp_create = cp_create a - cp_create b,
      cp_append = cp_append a - cp_append b, cp_rename = cp_rename a - cp_rename b,
      cp_unlink = cp_unlink a - cp_unlink b, cp_durability = cp_durability a - cp_durability b\<rparr>"

record WriteProfile =
  wp_ordinary :: Capacity
  wp_shared :: Capacity
  wp_terminal :: Capacity
  wp_recovery :: Capacity

definition profile_document :: "WriteProfile \<Rightarrow> payload" where
  "profile_document p =
     [(''ordinary'', JObj (capacity_document (wp_ordinary p))), (''shared'', JObj (capacity_document (wp_shared p))),
      (''terminal'', JObj (capacity_document (wp_terminal p))),
      (''recovery'', JObj (capacity_document (wp_recovery p)))]"

definition DEFAULT_WRITE_PROFILE :: WriteProfile where
  "DEFAULT_WRITE_PROFILE =
     \<lparr>wp_ordinary = capacity 0 0 0, wp_shared = capacity (512 * 1024) 16 256,
      wp_terminal = capacity (64 * 1024) 2 16, wp_recovery = capacity 0 0 0\<rparr>"

datatype Pool = ORDINARY | SHARED | TERMINAL_POOL | RECOVERY

definition all_pools :: "Pool list" where
  "all_pools = [ORDINARY, SHARED, TERMINAL_POOL, RECOVERY]"

fun pool_value :: "Pool \<Rightarrow> string" where
  "pool_value ORDINARY = ''ordinary''"
| "pool_value SHARED = ''shared''"
| "pool_value TERMINAL_POOL = ''terminal''"
| "pool_value RECOVERY = ''recovery''"

text \<open>\<open>getattr(profile, pool.value)\<close>\<close>

fun pool_capacity :: "WriteProfile \<Rightarrow> Pool \<Rightarrow> Capacity" where
  "pool_capacity p ORDINARY = wp_ordinary p"
| "pool_capacity p SHARED = wp_shared p"
| "pool_capacity p TERMINAL_POOL = wp_terminal p"
| "pool_capacity p RECOVERY = wp_recovery p"

record EffectIdentity =
  ei_operation :: string
  ei_subject :: string
  ei_payload_digest :: string

definition identity_document :: "EffectIdentity \<Rightarrow> payload" where
  "identity_document i =
     [(''operation'', JStr (ei_operation i)), (''subject'', JStr (ei_subject i)),
      (''payload_digest'', JStr (ei_payload_digest i))]"

definition fingerprint :: "env \<Rightarrow> EffectIdentity \<Rightarrow> string" where
  "fingerprint E i = digest_json E (identity_document i)"

datatype ReservationState = RESERVED | STARTED | COMMITTED | ABORTED | POSSIBLY_SENT | REFUSED | TERMINAL | RELEASED

fun state_value :: "ReservationState \<Rightarrow> string" where
  "state_value RESERVED = ''reserved''"
| "state_value STARTED = ''started''"
| "state_value COMMITTED = ''committed''"
| "state_value ABORTED = ''aborted''"
| "state_value POSSIBLY_SENT = ''possibly-sent''"
| "state_value REFUSED = ''refused''"
| "state_value TERMINAL = ''terminal''"
| "state_value RELEASED = ''released''"

definition FINAL_STATES :: "ReservationState list" where
  "FINAL_STATES = [COMMITTED, ABORTED, POSSIBLY_SENT, REFUSED, TERMINAL, RELEASED]"

datatype RetentionPolicy = RELEASE | RECORD | RECEIPT

fun retention_value :: "RetentionPolicy \<Rightarrow> string" where
  "retention_value RELEASE = ''release''"
| "retention_value RECORD = ''retain-record''"
| "retention_value RECEIPT = ''retain-receipt''"

definition retains_object :: "RetentionPolicy \<Rightarrow> bool" where
  "retains_object r = (r \<noteq> RELEASE)"

definition requires_receipt :: "RetentionPolicy \<Rightarrow> bool" where
  "requires_receipt r = (r = RECEIPT)"

record WriteReservation =
  wr_key :: string
  wr_identity :: EffectIdentity
  wr_effect_fingerprint :: string
  wr_need :: Capacity
  wr_pool :: Pool
  wr_state :: ReservationState
  wr_object_slots :: "string list"
  wr_observation :: "payload option"
  wr_boot_id :: string
  wr_retention :: RetentionPolicy
  wr_grant_remaining_bytes :: int
  wr_grant_headroom :: "(string \<times> Capacity) list option"

definition transitioned :: "ReservationState \<Rightarrow> payload option \<Rightarrow> string option \<Rightarrow> RetentionPolicy option
    \<Rightarrow> WriteReservation \<Rightarrow> WriteReservation" where
  "transitioned st obs boot ret r =
     r\<lparr>wr_state := st, wr_observation := obs,
       wr_boot_id := (case boot of None \<Rightarrow> wr_boot_id r | Some b \<Rightarrow> if b = [] then wr_boot_id r else b),
       wr_retention := (case ret of None \<Rightarrow> wr_retention r | Some x \<Rightarrow> x)\<rparr>"

section \<open>Storage\<close>

record ledger_row =
  lr_ordinal :: int
  lr_reservation :: WriteReservation

record authority =
  wa_profile :: WriteProfile
  wa_ledger :: "Pool \<Rightarrow> ledger_row list"
  wa_extent :: "Pool \<Rightarrow> int"
  wa_slots :: "Pool \<Rightarrow> (string \<times> payload option) list"
  wa_boot :: string

text \<open>A file operation succeeds, raises before it took effect, or raises after.\<close>

datatype fault = Done | FailedBefore | FailedAfter

record wenv =
  we_env :: env
  we_length :: "payload \<Rightarrow> int"
  we_redact :: "string \<Rightarrow> string"
  we_hook :: "string \<Rightarrow> exn option"
  we_proof :: payload
  we_clear :: "authority \<Rightarrow> Pool \<Rightarrow> string \<Rightarrow> fault"
  we_shrink :: "authority \<Rightarrow> Pool \<Rightarrow> fault"
  we_grow :: "authority \<Rightarrow> Pool \<Rightarrow> fault"

type_synonym 'a wop = "authority \<Rightarrow> 'a res \<times> authority"

definition LEDGER_RECORD_BYTES :: int where
  "LEDGER_RECORD_BYTES = 2048"

definition ledger_document :: "ledger_row \<Rightarrow> payload" where
  "ledger_document row =
     (let r = lr_reservation row in
      [(''schema_version'', JInt 1), (''ordinal'', JInt (lr_ordinal row)), (''key'', JStr (wr_key r)),
       (''effect_fingerprint'', JStr (wr_effect_fingerprint r)),
       (''identity'', JObj (identity_document (wr_identity r))), (''need'', JObj (capacity_document (wr_need r))),
       (''pool'', JStr (pool_value (wr_pool r))), (''state'', JStr (state_value (wr_state r))),
       (''object_slots'', JArr (map JStr (wr_object_slots r))),
       (''observation'', case wr_observation r of None \<Rightarrow> JNull | Some obs \<Rightarrow> JObj obs),
       (''boot_id'', JStr (wr_boot_id r)), (''retention'', JStr (retention_value (wr_retention r))),
       (''grant_remaining_bytes'', JInt (wr_grant_remaining_bytes r))]
      @ (case wr_grant_headroom r of None \<Rightarrow> [] | Some [] \<Rightarrow> []
         | Some h \<Rightarrow> [(''grant_headroom'', JObj (map (\<lambda>(k, c). (k, JObj (capacity_document c))) h))]))"

text \<open>What \<open>latest_locked\<close> rebuilds from a row: the observation with its keys in order, and an empty
  headroom where none was written.\<close>

definition as_loaded :: "WriteReservation \<Rightarrow> WriteReservation" where
  "as_loaded r =
     r\<lparr>wr_observation := map_option canon_dict (wr_observation r),
       wr_grant_headroom := Some (case wr_grant_headroom r of None \<Rightarrow> [] | Some h \<Rightarrow> sort_key fst h)\<rparr>"

definition rows_locked :: "authority \<Rightarrow> ledger_row list" where
  "rows_locked s = sort_key lr_ordinal (concat (map (wa_ledger s) all_pools))"

definition latest_locked :: "authority \<Rightarrow> (string \<times> WriteReservation) list" where
  "latest_locked s = dict_of (map (\<lambda>row. (wr_key (lr_reservation row), as_loaded (lr_reservation row))) (rows_locked s))"

definition available_operations_locked :: "Pool \<Rightarrow> authority \<Rightarrow> int" where
  "available_operations_locked pool s = cp_operations (pool_capacity (wa_profile s) pool) - int (length (wa_ledger s pool))"

definition append_locked :: "wenv \<Rightarrow> Pool option \<Rightarrow> WriteReservation \<Rightarrow> unit wop" where
  "append_locked E ledger_pool r s =
     (let pool = (case ledger_pool of None \<Rightarrow> wr_pool r | Some p \<Rightarrow> p);
          row = \<lparr>lr_ordinal = Max (insert 0 (set (map lr_ordinal (rows_locked s)))) + 1, lr_reservation = r\<rparr>
      in if available_operations_locked pool s \<le> 0 then (Inl ReservationUnavailable, s)
         else if we_length E (ledger_document row) + 1 > LEDGER_RECORD_BYTES then (Inl ReservationUnavailable, s)
         else (Inr (), s\<lparr>wa_ledger := (wa_ledger s)(pool := wa_ledger s pool @ [row])\<rparr>))"

definition holds :: "WriteReservation \<Rightarrow> bool" where
  "holds r = (wr_state r = RESERVED \<or> wr_state r = STARTED \<or> retains_object (wr_retention r))"

definition held :: "Pool \<Rightarrow> authority \<Rightarrow> WriteReservation list" where
  "held pool s = filter (\<lambda>r. wr_pool r = pool \<and> holds r) (map snd (latest_locked s))"

definition put_slot :: "Pool \<Rightarrow> string \<Rightarrow> payload option \<Rightarrow> authority \<Rightarrow> authority" where
  "put_slot pool name doc s =
     s\<lparr>wa_slots := (wa_slots s)(pool := map (\<lambda>(n, d). (n, if n = name then doc else d)) (wa_slots s pool))\<rparr>"

definition clear_slot :: "wenv \<Rightarrow> Pool \<Rightarrow> string \<Rightarrow> authority \<Rightarrow> bool \<times> authority" where
  "clear_slot E pool name s =
     (if name \<notin> set (map fst (wa_slots s pool)) then (False, s)
      else case we_clear E s pool name of
          Done \<Rightarrow> (True, put_slot pool name None s)
        | FailedBefore \<Rightarrow> (False, s)
        | FailedAfter \<Rightarrow> (False, put_slot pool name None s))"

fun scan_slots :: "wenv \<Rightarrow> Pool \<Rightarrow> string list \<Rightarrow> string list \<Rightarrow> nat \<Rightarrow> authority \<Rightarrow> string list \<times> authority" where
  "scan_slots E pool claimed [] count s = ([], s)"
| "scan_slots E pool claimed (name # names) count s =
     (if name \<in> set claimed then scan_slots E pool claimed names count s
      else case clear_slot E pool name s of
          (False, s') \<Rightarrow> scan_slots E pool claimed names count s'
        | (True, s') \<Rightarrow>
            if count = 1 then ([name], s')
            else (case scan_slots E pool claimed names (count - 1) s' of (rest, s'') \<Rightarrow> (name # rest, s'')))"

definition available_object_slots_locked :: "wenv \<Rightarrow> Pool \<Rightarrow> int \<Rightarrow> authority \<Rightarrow> string list \<times> authority" where
  "available_object_slots_locked E pool count s =
     (if count = 0 then ([], s)
      else scan_slots E pool (concat (map wr_object_slots (held pool s))) (sort (map fst (wa_slots s pool))) (nat count) s)"

definition future_operations :: "Pool \<Rightarrow> authority \<Rightarrow> int" where
  "future_operations pool s =
     sum_list (map (\<lambda>r. max (cp_operations (wr_need r)
         - int (length (filter (\<lambda>row. wr_key (lr_reservation row) = wr_key r) (rows_locked s)))) 0) (held pool s))"

definition available_capacity_locked :: "wenv \<Rightarrow> Pool \<Rightarrow> Capacity wop" where
  "available_capacity_locked E pool s =
     (let profile = pool_capacity (wa_profile s) pool;
          detailed = (\<lambda>f. f profile - sum_list (map (f \<circ> wr_need) (held pool s)));
          operations = max (available_operations_locked pool s - future_operations pool s) 0
      in case available_object_slots_locked E pool (cp_objects profile) s of (slots, s') \<Rightarrow>
         (new_capacity \<lparr>cp_bytes = wa_extent s pool, cp_objects = int (length slots), cp_operations = operations,
            cp_create = detailed cp_create, cp_append = detailed cp_append, cp_rename = detailed cp_rename,
            cp_unlink = detailed cp_unlink, cp_durability = detailed cp_durability\<rparr>, s'))"

fun headroom_of :: "wenv \<Rightarrow> Pool list \<Rightarrow> (Pool \<times> Capacity) list wop" where
  "headroom_of E [] = return_op (Inr [])"
| "headroom_of E (pool # pools) =
     bind_op (available_capacity_locked E pool) (\<lambda>c.
     bind_op (headroom_of E pools) (\<lambda>rest. return_op (Inr ((pool, c) # rest))))"

definition headroom_locked :: "wenv \<Rightarrow> (Pool \<times> Capacity) list wop" where
  "headroom_locked E = headroom_of E all_pools"

text \<open>\<open>{pool.value: capacity}\<close>, as a grant records it.\<close>

definition named_headroom :: "(Pool \<times> Capacity) list \<Rightarrow> (string \<times> Capacity) list" where
  "named_headroom h = map (map_prod pool_value id) h"

fun release_slots :: "wenv \<Rightarrow> Pool \<Rightarrow> string list \<Rightarrow> authority \<Rightarrow> bool \<times> authority" where
  "release_slots E pool [] s = (True, s)"
| "release_slots E pool (name # names) s =
     (case clear_slot E pool name s of (ok, s1) \<Rightarrow>
      case release_slots E pool names s1 of (oks, s2) \<Rightarrow> (ok \<and> oks, s2))"

definition release_object_slots_locked :: "wenv \<Rightarrow> WriteReservation \<Rightarrow> authority \<Rightarrow> bool \<times> authority" where
  "release_object_slots_locked E r s = release_slots E (wr_pool r) (wr_object_slots r) s"

definition set_extent :: "Pool \<Rightarrow> int \<Rightarrow> authority \<Rightarrow> authority" where
  "set_extent pool n s = s\<lparr>wa_extent := (wa_extent s)(pool := n)\<rparr>"

definition shrink_extent_locked :: "wenv \<Rightarrow> Pool \<Rightarrow> int \<Rightarrow> unit wop" where
  "shrink_extent_locked E pool amount s =
     (if wa_extent s pool < amount then (Inl ReservationUnavailable, s)
      else case we_shrink E s pool of
          Done \<Rightarrow> (Inr (), set_extent pool (wa_extent s pool - amount) s)
        | FailedBefore \<Rightarrow> (Inl OSError, s)
        | FailedAfter \<Rightarrow> (Inl OSError, set_extent pool (wa_extent s pool - amount) s))"

definition replenish_extent_locked :: "wenv \<Rightarrow> Pool \<Rightarrow> int \<Rightarrow> authority \<Rightarrow> authority" where
  "replenish_extent_locked E pool amount s =
     (let limit = cp_bytes (pool_capacity (wa_profile s) pool);
          original = wa_extent s pool; wanted = min amount (limit - original)
      in if wanted \<le> 0 \<or> we_grow E s pool = FailedBefore then s else set_extent pool (original + wanted) s)"

definition object_path :: "WriteReservation \<Rightarrow> string res" where
  "object_path r = (case wr_object_slots r of [] \<Rightarrow> Inl ReservationConflict | name # _ \<Rightarrow> Inr name)"

definition write_object :: "wenv \<Rightarrow> WriteReservation \<Rightarrow> payload \<Rightarrow> string wop" where
  "write_object E r doc s =
     (if \<not> retains_object (wr_retention r) \<or> wr_object_slots r = [] then (Inl ReservationConflict, s)
      else if we_length E doc + 1 > cp_bytes (wr_need r) then (Inl ReservationUnavailable, s)
      else case map_of (latest_locked s) (wr_key r) of
          None \<Rightarrow> (Inl ReservationConflict, s)
        | Some current \<Rightarrow>
            if wr_effect_fingerprint current \<noteq> wr_effect_fingerprint r \<or> \<not> retains_object (wr_retention current)
               \<or> wr_object_slots current \<noteq> wr_object_slots r
            then (Inl ReservationConflict, s)
            else (object_path r, put_slot (wr_pool r) (hd (wr_object_slots r)) (Some (canon_dict doc)) s))"

section \<open>The authority\<close>

definition MAX_OBSERVATION_TEXT :: nat where
  "MAX_OBSERVATION_TEXT = 512"

definition bounded_text :: "wenv \<Rightarrow> string \<Rightarrow> string" where
  "bounded_text E v =
     (let sanitized = we_redact E v in
      if length sanitized \<le> MAX_OBSERVATION_TEXT then sanitized
      else take 192 sanitized @ ''[truncated:'' @ show_nat (length sanitized) @ '':''
           @ sha_bytes (we_env E) sanitized @ '']'' @ drop (length sanitized - 64) sanitized)"

primrec bounded :: "wenv \<Rightarrow> json \<Rightarrow> json" where
  "bounded E JNull = JNull"
| "bounded E (JBool b) = JBool b"
| "bounded E (JInt n) = JInt n"
| "bounded E (JFloat r) = JFloat r"
| "bounded E (JStr v) = JStr (bounded_text E v)"
| "bounded E (JArr xs) = JArr (map (bounded E) xs)"
| "bounded E (JObj kvs) = JObj (map (map_prod id (bounded E)) kvs)"

definition bounded_dict :: "wenv \<Rightarrow> payload \<Rightarrow> payload" where
  "bounded_dict E obs = map (map_prod id (bounded E)) obs"

definition call_hook :: "wenv \<Rightarrow> string \<Rightarrow> unit wop" where
  "call_hook E phase = return_op (case we_hook E phase of None \<Rightarrow> Inr () | Some e \<Rightarrow> Inl e)"

definition current_locked :: "string \<Rightarrow> authority \<Rightarrow> WriteReservation option" where
  "current_locked key s = map_of (latest_locked s) key"

definition assert_same_effect :: "WriteReservation \<Rightarrow> string \<Rightarrow> unit res" where
  "assert_same_effect current fp = guard_res (wr_effect_fingerprint current = fp) ReservationConflict"

definition require_current_locked :: "WriteReservation \<Rightarrow> WriteReservation wop" where
  "require_current_locked proposed s =
     (bind_res (need (current_locked (wr_key proposed) s) ReservationConflict) (\<lambda>current.
      bind_res (assert_same_effect current (wr_effect_fingerprint proposed)) (\<lambda>_. Inr current)), s)"

definition sanitized_identity :: "wenv \<Rightarrow> EffectIdentity \<Rightarrow> EffectIdentity" where
  "sanitized_identity E i =
     \<lparr>ei_operation = bounded_text E (ei_operation i), ei_subject = bounded_text E (ei_subject i),
      ei_payload_digest = bounded_text E (ei_payload_digest i)\<rparr>"

text \<open>The arguments of \<open>reserve\<close>.\<close>

record request =
  rq_key :: string
  rq_identity :: EffectIdentity
  rq_need :: Capacity
  rq_pool :: Pool
  rq_retention :: RetentionPolicy
  rq_floor :: "Capacity option"
  rq_refusal_pool :: "Pool option"
  rq_capture_headroom :: bool
  rq_retry_aborted :: bool
  rq_retry_released :: bool

definition new_request :: "string \<Rightarrow> EffectIdentity \<Rightarrow> Capacity \<Rightarrow> request" where
  "new_request key i n =
     \<lparr>rq_key = key, rq_identity = i, rq_need = n, rq_pool = SHARED, rq_retention = RELEASE, rq_floor = None,
      rq_refusal_pool = None, rq_capture_headroom = False, rq_retry_aborted = False, rq_retry_released = False\<rparr>"

definition refused_reservation :: "wenv \<Rightarrow> request \<Rightarrow> (Pool \<times> Capacity) list \<Rightarrow> int \<Rightarrow> authority \<Rightarrow> WriteReservation" where
  "refused_reservation E q headroom left s =
     \<lparr>wr_key = rq_key q, wr_identity = sanitized_identity E (rq_identity q),
      wr_effect_fingerprint = fingerprint (we_env E) (rq_identity q), wr_need = rq_need q, wr_pool = rq_pool q,
      wr_state = REFUSED, wr_object_slots = [], wr_observation = Some [(''reason'', JStr ''capacity-exhausted'')],
      wr_boot_id = wa_boot s, wr_retention = RELEASE, wr_grant_remaining_bytes = left,
      wr_grant_headroom = (if rq_capture_headroom q then Some (named_headroom headroom) else None)\<rparr>"

definition record_refusal_locked :: "wenv \<Rightarrow> request \<Rightarrow> (Pool \<times> Capacity) list \<Rightarrow> int \<Rightarrow> unit wop" where
  "record_refusal_locked E q headroom left s =
     (let ledger_pool = (case rq_refusal_pool q of None \<Rightarrow> rq_pool q | Some p \<Rightarrow> p)
      in if available_operations_locked ledger_pool s < 1 then (Inr (), s)
         else append_locked E (Some ledger_pool) (refused_reservation E q headroom left s) s)"

definition granted_reservation :: "wenv \<Rightarrow> request \<Rightarrow> (Pool \<times> Capacity) list \<Rightarrow> Capacity \<Rightarrow> string list \<Rightarrow> authority
    \<Rightarrow> WriteReservation" where
  "granted_reservation E q headroom left slots s =
     \<lparr>wr_key = rq_key q, wr_identity = sanitized_identity E (rq_identity q),
      wr_effect_fingerprint = fingerprint (we_env E) (rq_identity q), wr_need = rq_need q, wr_pool = rq_pool q,
      wr_state = RESERVED, wr_object_slots = slots, wr_observation = None, wr_boot_id = wa_boot s,
      wr_retention = rq_retention q, wr_grant_remaining_bytes = cp_bytes left,
      wr_grant_headroom = (if rq_capture_headroom q
        then Some (named_headroom (map (\<lambda>(p, c). (p, if p = rq_pool q then left else c)) headroom)) else None)\<rparr>"

text \<open>The bytes of a closed reservation return to the extent only when all its slots could be cleared.\<close>

definition give_back :: "wenv \<Rightarrow> WriteReservation \<Rightarrow> authority \<Rightarrow> authority" where
  "give_back E r s =
     (case release_object_slots_locked E r s of (ok, s') \<Rightarrow>
      if ok then replenish_extent_locked E (wr_pool r) (cp_bytes (wr_need r)) s' else s')"

definition take_extent :: "wenv \<Rightarrow> WriteReservation \<Rightarrow> unit wop" where
  "take_extent E r s =
     (case shrink_extent_locked E (wr_pool r) (cp_bytes (wr_need r)) s of
        (Inr u, s') \<Rightarrow> (Inr u, s')
      | (Inl e, s') \<Rightarrow>
          (let aborted = transitioned ABORTED None None (Some RELEASE) r
           in case append_locked E None aborted s' of
                (Inl e', s'') \<Rightarrow> (Inl e', s'')
              | (Inr _, s'') \<Rightarrow> (Inl e, give_back E aborted s'')))"

definition admits :: "request \<Rightarrow> Capacity \<Rightarrow> string list \<Rightarrow> bool res" where
  "admits q remaining slots =
     (if \<not> fits remaining (rq_need q) \<or> int (length slots) < cp_objects (rq_need q) then Inr False
      else case rq_floor q of
          None \<Rightarrow> Inr True
        | Some least \<Rightarrow> bind_res (capacity_sub remaining (rq_need q)) (\<lambda>left. Inr (fits left least)))"

definition reserve_new :: "wenv \<Rightarrow> request \<Rightarrow> WriteReservation wop" where
  "reserve_new E q =
     bind_op (headroom_locked E) (\<lambda>headroom.
     bind_op (return_op (need (map_of headroom (rq_pool q)) KeyError)) (\<lambda>remaining s.
     case available_object_slots_locked E (rq_pool q) (cp_objects (rq_need q)) s of (slots, s1) \<Rightarrow>
     bind_op (return_op (admits q remaining slots)) (\<lambda>ok.
     if \<not> ok then
       bind_op (record_refusal_locked E q headroom (cp_bytes remaining)) (\<lambda>_. return_op (Inl ReservationUnavailable))
     else
       bind_op (return_op (capacity_sub remaining (rq_need q))) (\<lambda>left s2.
       let r = granted_reservation E q headroom left slots s2
       in bind_op (append_locked E None r) (\<lambda>_.
          bind_op (take_extent E r) (\<lambda>_. return_op (Inr r))) s2)) s1))"

definition retryable :: "request \<Rightarrow> WriteReservation \<Rightarrow> bool" where
  "retryable q current =
     (rq_retry_aborted q \<and> wr_state current = ABORTED \<or> rq_retry_released q \<and> wr_state current = RELEASED)"

text \<open>The reservation, and whether it is a new one: only then is the second hook reached.\<close>

definition reserve_write_locked :: "wenv \<Rightarrow> request \<Rightarrow> (WriteReservation \<times> bool) wop" where
  "reserve_write_locked E q s =
     (let fresh = bind_op (reserve_new E q) (\<lambda>r. return_op (Inr (r, True))) in
      case current_locked (rq_key q) s of
        None \<Rightarrow> fresh s
      | Some current \<Rightarrow>
          bind_op (return_op (assert_same_effect current (fingerprint (we_env E) (rq_identity q)))) (\<lambda>_.
          if retryable q current then fresh
          else return_op
            (if wr_state current \<noteq> ABORTED \<and> wr_state current \<noteq> REFUSED \<and> wr_retention current \<noteq> rq_retention q
             then Inl ReservationConflict else Inr (current, False))) s)"

definition reserve_write :: "wenv \<Rightarrow> request \<Rightarrow> WriteReservation wop" where
  "reserve_write E q =
     bind_op (return_op (guard_res (rq_key q \<noteq> [] \<and> cp_operations (rq_need q) \<ge> 3) ValueError)) (\<lambda>_.
     bind_op (call_hook E ''before_reserve'') (\<lambda>_.
     bind_op (reserve_write_locked E q) (\<lambda>(r, fresh).
     bind_op (if fresh then call_hook E ''after_reserve'' else return_op (Inr ())) (\<lambda>_. return_op (Inr r)))))"

definition claim_start :: "wenv \<Rightarrow> WriteReservation \<Rightarrow> (WriteReservation \<times> bool) wop" where
  "claim_start E r =
     bind_op (require_current_locked r) (\<lambda>current.
     if wr_state current \<noteq> RESERVED then return_op (Inr (current, False))
     else
       let started = transitioned STARTED None None None current
       in bind_op (append_locked E None started) (\<lambda>_. return_op (Inr (started, True))))"

definition start :: "wenv \<Rightarrow> WriteReservation \<Rightarrow> WriteReservation wop" where
  "start E r = bind_op (claim_start E r) (\<lambda>(started, _). return_op (Inr started))"

text \<open>The state from which \<open>_finish\<close> lets a reservation reach \<open>st\<close>.\<close>

fun allowed_from :: "ReservationState \<Rightarrow> ReservationState option" where
  "allowed_from COMMITTED = Some STARTED"
| "allowed_from POSSIBLY_SENT = Some STARTED"
| "allowed_from ABORTED = Some RESERVED"
| "allowed_from TERMINAL = Some RESERVED"
| "allowed_from _ = None"

definition finish :: "wenv \<Rightarrow> WriteReservation \<Rightarrow> ReservationState \<Rightarrow> payload \<Rightarrow> WriteReservation wop" where
  "finish E r st obs =
     bind_op (require_current_locked r) (\<lambda>current.
     if wr_state current \<in> set FINAL_STATES then return_op (Inr current)
     else
       bind_op (return_op (guard_res (allowed_from st = Some (wr_state current)) ReservationConflict)) (\<lambda>_.
       let ended = transitioned st (Some (bounded_dict E obs)) None
             (Some (if st = ABORTED then RELEASE else wr_retention current)) current
       in bind_op (append_locked E None ended) (\<lambda>_ s.
          (Inr ended, if retains_object (wr_retention ended) then s else give_back E ended s))))"

definition commit_write :: "wenv \<Rightarrow> WriteReservation \<Rightarrow> payload \<Rightarrow> WriteReservation wop" where
  "commit_write E r obs = finish E r COMMITTED obs"

definition possibly_sent :: "wenv \<Rightarrow> WriteReservation \<Rightarrow> string \<Rightarrow> payload option \<Rightarrow> WriteReservation wop" where
  "possibly_sent E r reason obs =
     finish E r POSSIBLY_SENT (dict_of ((''reason'', JStr reason) # (case obs of None \<Rightarrow> [] | Some o' \<Rightarrow> o')))"

definition abort :: "wenv \<Rightarrow> WriteReservation \<Rightarrow> string \<Rightarrow> WriteReservation wop" where
  "abort E r reason = finish E r ABORTED [(''reason'', JStr reason)]"

definition refuse_indeterminate :: "wenv \<Rightarrow> WriteReservation \<Rightarrow> string \<Rightarrow> WriteReservation wop" where
  "refuse_indeterminate E r reason =
     bind_op (require_current_locked r) (\<lambda>current.
     if wr_state current = TERMINAL then return_op (Inr current)
     else
       bind_op (return_op (guard_res (wr_state current = POSSIBLY_SENT) ReservationConflict)) (\<lambda>_.
       let ended = transitioned TERMINAL (Some [(''classification'', JStr (bounded_text E reason))]) None None current
       in bind_op (append_locked E None ended) (\<lambda>_. return_op (Inr ended))))"

definition release_retained :: "wenv \<Rightarrow> WriteReservation \<Rightarrow> string \<Rightarrow> WriteReservation wop" where
  "release_retained E r reason =
     bind_op (require_current_locked r) (\<lambda>current.
     if wr_state current = RELEASED then return_op (Inr current)
     else
       bind_op (return_op (guard_res (retains_object (wr_retention current) \<and> wr_state current \<in> set FINAL_STATES)
         ReservationConflict)) (\<lambda>_.
       let released = transitioned RELEASED (Some [(''reason'', JStr (bounded_text E reason))]) None (Some RELEASE) current
       in bind_op (append_locked E None released) (\<lambda>_ s. (Inr released, give_back E released s))))"

definition record_terminal :: "wenv \<Rightarrow> string \<Rightarrow> EffectIdentity \<Rightarrow> Capacity \<Rightarrow> string \<Rightarrow> WriteReservation wop" where
  "record_terminal E key i n classification =
     bind_op (reserve_write E ((new_request key i n)\<lparr>rq_pool := TERMINAL_POOL\<rparr>)) (\<lambda>r.
     if wr_state r = TERMINAL then return_op (Inr r)
     else
       bind_op (return_op (guard_res (wr_state r = RESERVED) EffectIndeterminate)) (\<lambda>_.
       finish E r TERMINAL [(''classification'', JStr classification)]))"

definition current :: "string \<Rightarrow> authority \<Rightarrow> WriteReservation option" where
  "current key s = current_locked key s"

definition reservations :: "authority \<Rightarrow> WriteReservation list" where
  "reservations s = map snd (latest_locked s)"

definition trace :: "string \<Rightarrow> authority \<Rightarrow> payload list" where
  "trace key s = map ledger_document (filter (\<lambda>row. wr_key (lr_reservation row) = key) (rows_locked s))"

section \<open>Receipts\<close>

definition profile_digest :: "wenv \<Rightarrow> authority \<Rightarrow> string" where
  "profile_digest E s = digest_json (we_env E) (profile_document (wa_profile s))"

definition receipt_document :: "wenv \<Rightarrow> WriteReservation \<Rightarrow> authority \<Rightarrow> payload" where
  "receipt_document E r s =
     [(''schema_version'', JInt 1), (''receipt_type'', JStr ''write-reservation''),
      (''profile_digest'', JStr (profile_digest E s)), (''key'', JStr (wr_key r)),
      (''effect_fingerprint'', JStr (wr_effect_fingerprint r)), (''pool'', JStr (pool_value (wr_pool r))),
      (''need'', JObj (capacity_document (wr_need r))), (''object_slots'', JArr (map JStr (wr_object_slots r))),
      (''state'', JStr (state_value (wr_state r))), (''trace'', JArr (map JObj (trace (wr_key r) s))),
      (''grant_remaining_bytes'', JInt (wr_grant_remaining_bytes r)),
      (''controlled_proof_digest'', JStr (digest_json (we_env E) (we_proof E))),
      (''crash_point_outcomes'', pget (we_proof E) ''crash_point_outcomes''),
      (''fault_injection_result'', pget (we_proof E) ''fault_injection_result''),
      (''reserved_capacity_exhaustion_result'', pget (we_proof E) ''reserved_capacity_exhaustion_result''),
      (''manifest_link'', JObj [(''row_id'', JStr ''core.canonical-state-replay-restart''),
         (''receipt_ref'', JStr ''receipt:write-reservation'')])]"

definition write_receipt :: "wenv \<Rightarrow> string \<Rightarrow> string wop" where
  "write_receipt E key s =
     (case current_locked key s of
        None \<Rightarrow> (Inl ValueError, s)
      | Some r \<Rightarrow>
          if \<not> requires_receipt (wr_retention r) then (Inl ReservationConflict, s)
          else
            let doc = receipt_document E r s
            in bind_op (return_op (object_path r)) (\<lambda>_.
               write_object E r (doc @ [(''receipt_digest'', JStr (digest_json (we_env E) doc))])) s)"

text \<open>\<open>_read_document\<close> on the contents of a slot: the stored document is canonical as written.\<close>

definition read_document :: "wenv \<Rightarrow> payload option \<Rightarrow> payload res" where
  "read_document E content =
     bind_res (need content ValueError) (\<lambda>doc.
     let body = filter (\<lambda>kv. fst kv \<noteq> ''receipt_digest'') doc
     in bind_res (guard_res (map_of doc ''receipt_digest'' = Some (JStr (digest_json (we_env E) body))) ValueError)
          (\<lambda>_. Inr body))"

definition verify_receipt :: "wenv \<Rightarrow> Pool \<Rightarrow> string \<Rightarrow> authority \<Rightarrow> payload res" where
  "verify_receipt E pool name s =
     bind_res (need (map_of (wa_slots s pool) name) OSError) (\<lambda>content.
     bind_res (read_document E content) (\<lambda>doc.
     let key = (case map_of doc ''key'' of None \<Rightarrow> [] | Some v \<Rightarrow> py_str (we_env E) v)
     in case current_locked key s of
          None \<Rightarrow> Inl ValueError
        | Some r \<Rightarrow> if same_dict doc (receipt_document E r s) then Inr doc else Inl ValueError))"

section \<open>Boots\<close>

fun reconcile :: "wenv \<Rightarrow> WriteReservation list \<Rightarrow> unit wop" where
  "reconcile E [] = return_op (Inr ())"
| "reconcile E (r # rs) =
     bind_op (\<lambda>s.
       if wr_boot_id r = wa_boot s then (Inr (), s)
       else if wr_state r = RESERVED then
         let recovered = transitioned ABORTED (Some [(''reason'', JStr ''restart-before-effect'')]) (Some (wa_boot s))
               (Some RELEASE) r
         in bind_op (append_locked E None recovered) (\<lambda>_ s'. (Inr (), give_back E recovered s')) s
       else if wr_state r = STARTED then
         let recovered = transitioned POSSIBLY_SENT (Some [(''reason'', JStr ''restart-after-effect-admission'')])
               (Some (wa_boot s)) None r
         in bind_op (append_locked E None recovered) (\<lambda>_ s'.
              (Inr (), if retains_object (wr_retention recovered) then s' else give_back E recovered s')) s
       else (Inr (), s))
     (\<lambda>_. reconcile E rs)"

definition reconcile_prior_boots_locked :: "wenv \<Rightarrow> unit wop" where
  "reconcile_prior_boots_locked E s = reconcile E (map snd (latest_locked s)) s"

fun write_receipts :: "wenv \<Rightarrow> string list \<Rightarrow> unit wop" where
  "write_receipts E [] = return_op (Inr ())"
| "write_receipts E (key # keys) = bind_op (write_receipt E key) (\<lambda>_. write_receipts E keys)"

text \<open>\<open>_provision_locked\<close> on an empty directory, and the constructor on a provisioned one with the boot
  identity it draws.\<close>

definition slot_name :: "nat \<Rightarrow> string" where
  "slot_name i = (let t = show_nat i in replicate (4 - length t) (CHR ''0'') @ t) @ ''.slot''"

definition provision :: "WriteProfile \<Rightarrow> authority" where
  "provision p =
     \<lparr>wa_profile = p, wa_ledger = (\<lambda>_. []), wa_extent = (\<lambda>pool. cp_bytes (pool_capacity p pool)),
      wa_slots = (\<lambda>pool. map (\<lambda>i. (slot_name i, None)) [0..<nat (cp_objects (pool_capacity p pool))]), wa_boot = []\<rparr>"

definition open_authority :: "wenv \<Rightarrow> string \<Rightarrow> unit wop" where
  "open_authority E boot s =
     bind_op (reconcile_prior_boots_locked E) (\<lambda>_ s1.
       write_receipts E (map wr_key (filter (\<lambda>r. requires_receipt (wr_retention r) \<and> wr_state r \<in> set FINAL_STATES)
         (map snd (latest_locked s1)))) s1) (s\<lparr>wa_boot := boot\<rparr>)"

section \<open>One effect\<close>

text \<open>\<open>_await_terminal\<close>: the reservation as it is at each poll before the deadline.\<close>

fun await_terminal :: "WriteReservation \<Rightarrow> authority list \<Rightarrow> WriteReservation" where
  "await_terminal r [] = r"
| "await_terminal r (s # polls) =
     (if wr_state r = RESERVED \<or> wr_state r = STARTED
      then await_terminal (case current_locked (wr_key r) s of None \<Rightarrow> r | Some c \<Rightarrow> c) polls else r)"

text \<open>The callbacks of \<open>execute\<close>: the effect, which may use the authority and may raise, the coding of
  its result, and the observation of a failed one; and the states that other threads leave while this one waits.\<close>

record 'r effect =
  ef_run :: "'r wop"
  ef_encode :: "'r \<Rightarrow> payload res"
  ef_decode :: "payload \<Rightarrow> 'r res"
  ef_observe :: "'r \<Rightarrow> unit wop"
  ef_failure :: "exn \<Rightarrow> payload option"
  ef_error_name :: "exn \<Rightarrow> string"
  ef_polls :: "authority \<Rightarrow> authority list"

definition last_seen :: "authority list \<Rightarrow> authority \<Rightarrow> authority" where
  "last_seen polls s = (if polls = [] then s else last polls)"

definition receipt_if_required :: "wenv \<Rightarrow> WriteReservation \<Rightarrow> string \<Rightarrow> unit wop" where
  "receipt_if_required E r key =
     (if requires_receipt (wr_retention r) then bind_op (write_receipt E key) (\<lambda>_. return_op (Inr ()))
      else return_op (Inr ()))"

definition decoded :: "'r effect \<Rightarrow> WriteReservation \<Rightarrow> 'r res" where
  "decoded ef r = ef_decode ef (case wr_observation r of None \<Rightarrow> [] | Some obs \<Rightarrow> obs)"

text \<open>The part after the start was claimed.  A failure of the best-effort receipt of a possibly sent
  effect is swallowed when it is an \<open>OSError\<close> or a reservation error.\<close>

definition failed_effect :: "wenv \<Rightarrow> 'r effect \<Rightarrow> string \<Rightarrow> WriteReservation \<Rightarrow> exn \<Rightarrow> 'r wop" where
  "failed_effect E ef key started e s =
     (case current_locked key s of
        Some c \<Rightarrow>
          if wr_state c \<noteq> STARTED then (Inl e, s)
          else (case possibly_sent E started (ef_error_name ef e) (ef_failure ef e) s of
              (Inl e', s') \<Rightarrow> (Inl e', s')
            | (Inr c', s') \<Rightarrow>
                if \<not> requires_receipt (wr_retention c') then (Inl e, s')
                else (case write_receipt E key s' of
                    (Inr _, s'') \<Rightarrow> (Inl e, s'')
                  | (Inl e', s'') \<Rightarrow>
                      (Inl (if e' \<in> {OSError, ReservationConflict, ReservationUnavailable, EffectIndeterminate}
                            then e else e'), s'')))
      | None \<Rightarrow> (Inl e, s))"

text \<open>The optional observer of the result may fail with an \<open>OSError\<close> without consequence.\<close>

definition observed_result :: "'r effect \<Rightarrow> 'r \<Rightarrow> unit wop" where
  "observed_result ef x s =
     (case ef_observe ef x s of (Inl e, s') \<Rightarrow> (if e = OSError then Inr () else Inl e, s') | (Inr u, s') \<Rightarrow> (Inr u, s'))"

definition run_effect :: "wenv \<Rightarrow> 'r effect \<Rightarrow> string \<Rightarrow> WriteReservation \<Rightarrow> 'r wop" where
  "run_effect E ef key started s =
     (case bind_op (ef_run ef) (\<lambda>x. bind_op (call_hook E ''after_effect'') (\<lambda>_.
             bind_op (return_op (ef_encode ef x)) (\<lambda>obs.
             bind_op (commit_write E started obs) (\<lambda>committed. return_op (Inr (x, committed)))))) s of
        (Inl e, s') \<Rightarrow> failed_effect E ef key started e s'
      | (Inr (x, committed), s') \<Rightarrow>
          bind_op (receipt_if_required E committed key) (\<lambda>_.
          bind_op (observed_result ef x) (\<lambda>_. return_op (decoded ef committed))) s')"

definition settled_result :: "wenv \<Rightarrow> 'r effect \<Rightarrow> string \<Rightarrow> WriteReservation \<Rightarrow> 'r wop" where
  "settled_result E ef key r =
     bind_op (receipt_if_required E r key) (\<lambda>_. return_op (decoded ef r))"

definition execute_reserved :: "wenv \<Rightarrow> 'r effect \<Rightarrow> string \<Rightarrow> WriteReservation \<Rightarrow> 'r wop" where
  "execute_reserved E ef key r =
     (if wr_state r \<noteq> RESERVED then
        bind_op (if wr_state r \<in> set FINAL_STATES then receipt_if_required E r key else return_op (Inr ()))
          (\<lambda>_. return_op (Inl EffectIndeterminate))
      else
        bind_op (claim_start E r) (\<lambda>(started, acquired) s.
        if \<not> acquired then
          (let polls = ef_polls ef s; c = await_terminal started polls
           in (if wr_state c = COMMITTED then decoded ef c else Inl EffectIndeterminate, last_seen polls s))
        else run_effect E ef key started s))"

definition execute :: "wenv \<Rightarrow> 'r effect \<Rightarrow> string \<Rightarrow> EffectIdentity \<Rightarrow> Capacity \<Rightarrow> RetentionPolicy \<Rightarrow> 'r wop" where
  "execute E ef key i n ret =
     bind_op (reserve_write E ((new_request key i n)\<lparr>rq_retention := ret\<rparr>)) (\<lambda>r s.
     if wr_state r = COMMITTED then settled_result E ef key r s
     else if wr_state r = STARTED then
       (let polls = ef_polls ef s; c = await_terminal r polls; s' = last_seen polls s
        in if wr_state c = COMMITTED then settled_result E ef key c s' else execute_reserved E ef key c s')
     else execute_reserved E ef key r s)"

end
