(* ===== verification/Write_Reservation_Laws.thy ===== *)
theory Write_Reservation_Laws
  imports Write_Reservation "HOL-Library.Multiset"
begin

text \<open>
  Laws of the write authority: what an append does to the ledger and to the latest reservation of each
  key, which file operations leave the ledger alone, the lifecycle that every ledger follows, and the
  conservation of the extent and of the object slots.
\<close>

section \<open>The ledger\<close>

lemma sort_key_snoc:
  fixes f :: "'a \<Rightarrow> 'b :: linorder"
  assumes "\<And>y. y \<in> set (xs @ ys) \<Longrightarrow> f y < f x"
  shows "sort_key f (xs @ x # ys) = sort_key f (xs @ ys) @ [x]"
proof (rule properties_for_sort_key)
  show "mset (sort_key f (xs @ ys) @ [x]) = mset (xs @ x # ys)" by simp
  show "sorted (map f (sort_key f (xs @ ys) @ [x]))" using assms by (auto simp: sorted_append less_imp_le)
  fix k
  assume "k \<in> set (sort_key f (xs @ ys) @ [x])"
  then have k: "k = x \<or> k \<in> set (xs @ ys)" by auto
  show "filter (\<lambda>y. f k = f y) (sort_key f (xs @ ys) @ [x]) = filter (\<lambda>y. f k = f y) (xs @ x # ys)"
  proof (cases "f k = f x")
    case True
    then have ne: "f k \<noteq> f y" if "y \<in> set (xs @ ys)" for y using assms [OF that] by simp
    then have none: "filter (\<lambda>y. f k = f y) xs = []" "filter (\<lambda>y. f k = f y) ys = []"
      by (auto simp: filter_empty_conv)
    have "filter (\<lambda>y. f k = f y) (sort_key f (xs @ ys)) = []" using ne by (auto simp: filter_empty_conv)
    then show ?thesis using none True by simp
  next
    case False
    have "filter (\<lambda>y. f y = f k) (sort_key f (xs @ ys)) = filter (\<lambda>y. f y = f k) (xs @ ys)" by (rule sort_key_stable)
    then show ?thesis using False by (simp add: eq_commute)
  qed
qed

definition put_row :: "Pool \<Rightarrow> ledger_row \<Rightarrow> authority \<Rightarrow> authority" where
  "put_row pool row s = s\<lparr>wa_ledger := (wa_ledger s)(pool := wa_ledger s pool @ [row])\<rparr>"

lemma set_rows: "set (rows_locked s) = (\<Union>pool. set (wa_ledger s pool))"
proof -
  have "UNIV = set all_pools" using Pool.exhaust by (auto simp: all_pools_def)
  then show ?thesis by (simp add: rows_locked_def)
qed

lemma rows_put_row:
  assumes "\<And>row'. row' \<in> set (rows_locked s) \<Longrightarrow> lr_ordinal row' < lr_ordinal row"
  shows "rows_locked (put_row pool row s) = rows_locked s @ [row]"
proof -
  let ?c = "concat (map (wa_ledger s) all_pools)"
  have small: "y \<in> set ?c \<Longrightarrow> lr_ordinal y < lr_ordinal row" for y using assms by (auto simp: rows_locked_def)
  obtain xs ys where split: "concat (map (wa_ledger s) all_pools) = xs @ ys"
    "concat (map (wa_ledger (put_row pool row s)) all_pools) = xs @ row # ys"
  proof (cases pool)
    case ORDINARY
    then show ?thesis using that [of "wa_ledger s ORDINARY"] by (simp add: all_pools_def put_row_def)
  next
    case SHARED
    then show ?thesis using that [of "wa_ledger s ORDINARY @ wa_ledger s SHARED"] by (simp add: all_pools_def put_row_def)
  next
    case TERMINAL_POOL
    then show ?thesis using that [of "wa_ledger s ORDINARY @ wa_ledger s SHARED @ wa_ledger s TERMINAL_POOL"]
      by (simp add: all_pools_def put_row_def)
  next
    case RECOVERY
    then show ?thesis
      using that [of "wa_ledger s ORDINARY @ wa_ledger s SHARED @ wa_ledger s TERMINAL_POOL @ wa_ledger s RECOVERY"]
      by (simp add: all_pools_def put_row_def)
  qed
  show ?thesis unfolding rows_locked_def split by (rule sort_key_snoc) (use small split in auto)
qed

definition next_row :: "WriteReservation \<Rightarrow> authority \<Rightarrow> ledger_row" where
  "next_row r s = \<lparr>lr_ordinal = Max (insert 0 (set (map lr_ordinal (rows_locked s)))) + 1, lr_reservation = r\<rparr>"

lemma rows_next [simp]: "rows_locked (put_row pool (next_row r s) s) = rows_locked s @ [next_row r s]"
proof (rule rows_put_row)
  fix row'
  assume "row' \<in> set (rows_locked s)"
  then have "lr_ordinal row' \<le> Max (insert 0 (set (map lr_ordinal (rows_locked s))))" by (intro Max_ge) auto
  then show "lr_ordinal row' < lr_ordinal (next_row r s)" by (simp add: next_row_def)
qed

abbreviation ledger_of :: "Pool option \<Rightarrow> WriteReservation \<Rightarrow> Pool" where
  "ledger_of lp r \<equiv> (case lp of None \<Rightarrow> wr_pool r | Some p \<Rightarrow> p)"

lemma append_locked_Inr:
  "append_locked E lp r s = (Inr u, s') \<longleftrightarrow>
     0 < available_operations_locked (ledger_of lp r) s
     \<and> we_length E (ledger_document (next_row r s)) + 1 \<le> LEDGER_RECORD_BYTES \<and> s' = put_row (ledger_of lp r) (next_row r s) s"
  by (auto simp: append_locked_def Let_def next_row_def put_row_def)

lemma append_locked_Inl: "append_locked E lp r s = (Inl e, s') \<Longrightarrow> e = ReservationUnavailable \<and> s' = s"
  by (auto simp: append_locked_def Let_def split: if_splits)

lemma latest_put [simp]:
  "latest_locked (put_row pool (next_row r s) s) = dict_set (wr_key r) (as_loaded r) (latest_locked s)"
  by (simp add: latest_locked_def dict_of_def) (simp add: next_row_def)

lemma current_put [simp]:
  "current_locked k (put_row pool (next_row r s) s) = (if k = wr_key r then Some (as_loaded r) else current_locked k s)"
  by (simp add: current_locked_def)

lemma put_row_fields [simp]:
  "wa_profile (put_row pool row s) = wa_profile s" "wa_extent (put_row pool row s) = wa_extent s"
  "wa_slots (put_row pool row s) = wa_slots s" "wa_boot (put_row pool row s) = wa_boot s"
  "wa_ledger (put_row pool row s) = (wa_ledger s)(pool := wa_ledger s pool @ [row])"
  by (simp_all add: put_row_def)

lemma as_loaded_fields [simp]:
  "wr_key (as_loaded r) = wr_key r" "wr_effect_fingerprint (as_loaded r) = wr_effect_fingerprint r"
  "wr_need (as_loaded r) = wr_need r" "wr_pool (as_loaded r) = wr_pool r" "wr_state (as_loaded r) = wr_state r"
  "wr_object_slots (as_loaded r) = wr_object_slots r" "wr_boot_id (as_loaded r) = wr_boot_id r"
  "wr_retention (as_loaded r) = wr_retention r" "wr_identity (as_loaded r) = wr_identity r" "holds (as_loaded r) = holds r"
  by (simp_all add: as_loaded_def holds_def)

lemma transitioned_fields [simp]:
  "wr_key (transitioned st obs boot ret r) = wr_key r"
  "wr_effect_fingerprint (transitioned st obs boot ret r) = wr_effect_fingerprint r"
  "wr_need (transitioned st obs boot ret r) = wr_need r" "wr_pool (transitioned st obs boot ret r) = wr_pool r"
  "wr_state (transitioned st obs boot ret r) = st"
  "wr_object_slots (transitioned st obs boot ret r) = wr_object_slots r"
  "wr_retention (transitioned st obs boot ret r) = (case ret of None \<Rightarrow> wr_retention r | Some x \<Rightarrow> x)"
  by (simp_all add: transitioned_def)

section \<open>File operations leave the ledger alone\<close>

definition same_ledger :: "authority \<Rightarrow> authority \<Rightarrow> bool" where
  "same_ledger s s' \<longleftrightarrow> wa_ledger s' = wa_ledger s \<and> wa_profile s' = wa_profile s \<and> wa_boot s' = wa_boot s
     \<and> (\<forall>pool. map fst (wa_slots s' pool) = map fst (wa_slots s pool))"

lemma same_ledger_refl [simp]: "same_ledger s s"
  by (simp add: same_ledger_def)

lemma same_ledger_trans: "same_ledger s s1 \<Longrightarrow> same_ledger s1 s2 \<Longrightarrow> same_ledger s s2"
  by (simp add: same_ledger_def)

lemma same_ledgerD:
  assumes "same_ledger s s'"
  shows "rows_locked s' = rows_locked s" "latest_locked s' = latest_locked s" "current_locked k s' = current_locked k s"
    "held pool s' = held pool s" "available_operations_locked pool s' = available_operations_locked pool s"
    "future_operations pool s' = future_operations pool s" "next_row r s' = next_row r s" "trace k s' = trace k s"
    "wa_profile s' = wa_profile s" "wa_boot s' = wa_boot s"
  using assms
  by (simp_all add: same_ledger_def rows_locked_def latest_locked_def current_locked_def held_def
      available_operations_locked_def future_operations_def next_row_def trace_def)

lemma put_slot_fields [simp]:
  "same_ledger s (put_slot pool name doc s)" "wa_extent (put_slot pool name doc s) = wa_extent s"
  by (auto simp: put_slot_def same_ledger_def comp_def case_prod_beta)

lemma set_extent_fields [simp]:
  "same_ledger s (set_extent pool n s)" "wa_slots (set_extent pool n s) = wa_slots s"
  "wa_extent (set_extent pool n s) = (wa_extent s)(pool := n)"
  by (simp_all add: set_extent_def same_ledger_def)

lemma clear_slot_same:
  assumes "clear_slot E pool name s = (ok, s')"
  shows "same_ledger s s'" "wa_extent s' = wa_extent s"
  using assms by (auto simp: clear_slot_def split: if_splits fault.splits)

lemma scan_slots_Cons:
  assumes "scan_slots E pool claimed (name # names) n s = (slots, s')"
  obtains (claimed) "name \<in> set claimed" "scan_slots E pool claimed names n s = (slots, s')"
  | (stuck) s1 where "name \<notin> set claimed" "clear_slot E pool name s = (False, s1)"
      "scan_slots E pool claimed names n s1 = (slots, s')"
  | (last) "name \<notin> set claimed" "clear_slot E pool name s = (True, s')" "n = 1" "slots = [name]"
  | (more) s1 rest where "name \<notin> set claimed" "clear_slot E pool name s = (True, s1)" "n \<noteq> 1"
      "scan_slots E pool claimed names (n - 1) s1 = (rest, s')" "slots = name # rest"
proof (cases "name \<in> set claimed")
  case True
  then show ?thesis using assms claimed by simp
next
  case False
  obtain ok s1 where "clear_slot E pool name s = (ok, s1)" by fastforce
  then show ?thesis using False assms stuck last more by (cases ok) (auto split: if_splits prod.splits)
qed

lemma scan_slots_same:
  "scan_slots E pool claimed names n s = (slots, s') \<Longrightarrow> same_ledger s s' \<and> wa_extent s' = wa_extent s"
proof (induction names arbitrary: n s slots)
  case (Cons name names)
  from Cons.prems show ?case
  proof (cases rule: scan_slots_Cons)
    case claimed
    then show ?thesis using Cons.IH by blast
  next
    case (stuck s1)
    then show ?thesis using Cons.IH [OF stuck(3)] clear_slot_same [OF stuck(2)] same_ledger_trans by simp
  next
    case last
    then show ?thesis using clear_slot_same by blast
  next
    case (more s1 rest)
    then show ?thesis using Cons.IH [OF more(4)] clear_slot_same [OF more(2)] same_ledger_trans by simp
  qed
qed simp

lemma scan_slots_names:
  "scan_slots E pool claimed names n s = (slots, s') \<Longrightarrow> distinct names \<Longrightarrow>
     distinct slots \<and> set slots \<subseteq> set names - set claimed"
proof (induction names arbitrary: n s slots)
  case (Cons name names)
  have d: "distinct names" "name \<notin> set names" using Cons.prems(2) by simp_all
  from Cons.prems(1) show ?case
  proof (cases rule: scan_slots_Cons)
    case claimed
    then show ?thesis using Cons.IH [OF claimed(2) d(1)] by auto
  next
    case (stuck s1)
    then show ?thesis using Cons.IH [OF stuck(3) d(1)] by auto
  next
    case last
    then show ?thesis by simp
  next
    case (more s1 rest)
    then show ?thesis using Cons.IH [OF more(4) d(1)] d(2) by auto
  qed
qed simp

lemma available_slots_same:
  assumes "available_object_slots_locked E pool n s = (slots, s')"
  shows "same_ledger s s'" "wa_extent s' = wa_extent s"
  using assms scan_slots_same by (auto simp: available_object_slots_locked_def split: if_splits)

lemma available_capacity_same:
  assumes "available_capacity_locked E pool s = (out, s')"
  shows "same_ledger s s' \<and> wa_extent s' = wa_extent s"
    "out = Inr c \<Longrightarrow> cp_bytes c = wa_extent s pool
       \<and> cp_operations c = max (available_operations_locked pool s - future_operations pool s) 0"
  using assms available_slots_same
  by (auto simp: available_capacity_locked_def Let_def new_capacity_def split: prod.splits if_splits)

lemma headroom_of_same:
  "headroom_of E pools s = (out, s') \<Longrightarrow> same_ledger s s' \<and> wa_extent s' = wa_extent s
     \<and> (\<forall>h pool c. out = Inr h \<longrightarrow> map_of h pool = Some c \<longrightarrow> cp_bytes c = wa_extent s pool
          \<and> cp_operations c = max (available_operations_locked pool s - future_operations pool s) 0)"
proof (induction pools arbitrary: s out s')
  case Nil
  then show ?case by (auto simp: return_op_def)
next
  case (Cons pool pools)
  obtain r s1 where c: "available_capacity_locked E pool s = (r, s1)" by fastforce
  note a = available_capacity_same [OF c]
  show ?case
  proof (cases r)
    case (Inl e)
    then show ?thesis using Cons.prems c a(1) by (auto simp: bind_op_def)
  next
    case (Inr cap)
    obtain r2 s2 where h: "headroom_of E pools s1 = (r2, s2)" by fastforce
    have s2: "s' = s2" using Cons.prems c Inr h by (cases r2) (auto simp: bind_op_def return_op_def)
    have same: "same_ledger s s' \<and> wa_extent s' = wa_extent s"
      using Cons.IH [OF h] a(1) same_ledger_trans s2 by auto
    show ?thesis
    proof (cases r2)
      case (Inl e)
      then show ?thesis using Cons.prems c Inr h same by (auto simp: bind_op_def)
    next
      case r2: (Inr rest)
      have "out = Inr ((pool, cap) # rest)" using Cons.prems c Inr h r2 by (auto simp: bind_op_def return_op_def)
      then show ?thesis using same Cons.IH [OF h] r2 a Inr same_ledgerD(5,6) [of s s1] by auto
    qed
  qed
qed

lemma release_slots_same:
  "release_slots E pool names s = (ok, s') \<Longrightarrow> same_ledger s s' \<and> wa_extent s' = wa_extent s"
proof (induction names arbitrary: s ok s')
  case (Cons name names)
  obtain o1 s1 o2 s2 where c: "clear_slot E pool name s = (o1, s1)" "release_slots E pool names s1 = (o2, s2)" by fastforce
  then have "s' = s2" using Cons.prems by simp
  then show ?case using Cons.IH [OF c(2)] clear_slot_same [OF c(1)] same_ledger_trans by auto
qed simp

lemma replenish_same: "same_ledger s (replenish_extent_locked E pool n s)" "wa_slots (replenish_extent_locked E pool n s) = wa_slots s"
  by (simp_all add: replenish_extent_locked_def Let_def)

lemma give_back_same: "same_ledger s (give_back E r s)"
proof -
  obtain ok s1 where c: "release_object_slots_locked E r s = (ok, s1)" by fastforce
  then have "same_ledger s s1" using release_slots_same by (auto simp: release_object_slots_locked_def)
  then show ?thesis using c replenish_same(1) same_ledger_trans by (auto simp: give_back_def)
qed

lemma shrink_same: "shrink_extent_locked E pool n s = (out, s') \<Longrightarrow> same_ledger s s' \<and> wa_slots s' = wa_slots s"
  by (auto simp: shrink_extent_locked_def split: if_splits fault.splits)

lemma write_object_same: "write_object E r doc s = (out, s') \<Longrightarrow> same_ledger s s' \<and> wa_extent s' = wa_extent s"
  by (auto simp: write_object_def split: if_splits option.splits)

lemma write_receipt_same: "write_receipt E key s = (out, s') \<Longrightarrow> same_ledger s s' \<and> wa_extent s' = wa_extent s"
  using write_object_same
  by (auto simp: write_receipt_def Let_def bind_op_def return_op_def split: if_splits option.splits sum.splits)

section \<open>What a reservation does\<close>

lemma fits_bounds:
  assumes "fits c n"
  shows "cp_bytes n \<le> cp_bytes c" "cp_objects n \<le> cp_objects c" "cp_operations n \<le> cp_operations c"
  using assms by (simp_all add: fits_def capacity_values_def)

definition granted_row :: "authority \<Rightarrow> WriteReservation \<Rightarrow> bool" where
  "granted_row s r \<longleftrightarrow> wr_state r = RESERVED \<and> distinct (wr_object_slots r)
     \<and> set (wr_object_slots r) \<subseteq> set (map fst (wa_slots s (wr_pool r)))
     \<and> (\<forall>h \<in> set (held (wr_pool r) s). set (wr_object_slots h) \<inter> set (wr_object_slots r) = {})"

definition refused_row :: "WriteReservation \<Rightarrow> bool" where
  "refused_row r \<longleftrightarrow> wr_state r = REFUSED \<and> wr_object_slots r = [] \<and> wr_retention r = RELEASE"

lemma held_sound: "h \<in> set (held pool s) \<longleftrightarrow> (\<exists>k. current_locked k s = Some h) \<and> wr_pool h = pool \<and> holds h"
proof -
  have "distinct (map fst (latest_locked s))"
    unfolding latest_locked_def by (rule distinct_dict_of)
  then have "h \<in> snd ` set (latest_locked s) \<longleftrightarrow> (\<exists>k. map_of (latest_locked s) k = Some h)"
    by force
  then show ?thesis by (auto simp: held_def current_locked_def)
qed

lemma available_slots_free:
  assumes "available_object_slots_locked E pool n s = (slots, s')" "distinct (map fst (wa_slots s pool))"
  shows "distinct slots" "set slots \<subseteq> set (map fst (wa_slots s pool))"
    "\<forall>h \<in> set (held pool s). set (wr_object_slots h) \<inter> set slots = {}"
proof -
  have "distinct slots \<and> set slots \<subseteq> set (map fst (wa_slots s pool))
      \<and> (\<forall>h \<in> set (held pool s). set (wr_object_slots h) \<inter> set slots = {})"
  proof (cases "n = 0")
    case True
    then show ?thesis using assms(1) by (simp add: available_object_slots_locked_def)
  next
    case False
    then have "scan_slots E pool (concat (map wr_object_slots (held pool s))) (sort (map fst (wa_slots s pool))) (nat n) s
        = (slots, s')" using assms(1) by (simp add: available_object_slots_locked_def)
    from scan_slots_names [OF this] show ?thesis using assms(2) by auto
  qed
  then show "distinct slots" "set slots \<subseteq> set (map fst (wa_slots s pool))"
    "\<forall>h \<in> set (held pool s). set (wr_object_slots h) \<inter> set slots = {}" by blast+
qed

lemma granted_fields [simp]:
  "wr_key (granted_reservation E q h l slots s) = rq_key q"
  "wr_effect_fingerprint (granted_reservation E q h l slots s) = fingerprint (we_env E) (rq_identity q)"
  "wr_need (granted_reservation E q h l slots s) = rq_need q" "wr_pool (granted_reservation E q h l slots s) = rq_pool q"
  "wr_state (granted_reservation E q h l slots s) = RESERVED"
  "wr_object_slots (granted_reservation E q h l slots s) = slots"
  "wr_retention (granted_reservation E q h l slots s) = rq_retention q"
  "wr_boot_id (granted_reservation E q h l slots s) = wa_boot s"
  by (simp_all add: granted_reservation_def)

lemma refused_fields [simp]:
  "wr_key (refused_reservation E q h l s) = rq_key q"
  "wr_effect_fingerprint (refused_reservation E q h l s) = fingerprint (we_env E) (rq_identity q)"
  "wr_need (refused_reservation E q h l s) = rq_need q" "refused_row (refused_reservation E q h l s)"
  by (simp_all add: refused_reservation_def refused_row_def)

text \<open>A new reservation first measures the pools and picks free slots; only files are touched.\<close>

definition unwritten :: "authority \<Rightarrow> 'a res \<Rightarrow> authority \<Rightarrow> bool" where
  "unwritten s out s' \<longleftrightarrow> same_ledger s s' \<and> wa_extent s' = wa_extent s \<and> (\<exists>e. out = Inl e)"

definition measured :: "wenv \<Rightarrow> request \<Rightarrow> authority \<Rightarrow> Capacity \<Rightarrow> string list \<Rightarrow> authority \<Rightarrow> bool" where
  "measured E q s remaining slots s1 \<longleftrightarrow> same_ledger s s1 \<and> wa_extent s1 = wa_extent s
     \<and> cp_bytes remaining = wa_extent s (rq_pool q)
     \<and> cp_operations remaining = max (available_operations_locked (rq_pool q) s - future_operations (rq_pool q) s) 0
     \<and> distinct slots \<and> set slots \<subseteq> set (map fst (wa_slots s1 (rq_pool q)))
     \<and> (\<forall>h \<in> set (held (rq_pool q) s1). set (wr_object_slots h) \<inter> set slots = {})"

definition decide_reserve :: "wenv \<Rightarrow> request \<Rightarrow> (Pool \<times> Capacity) list \<Rightarrow> Capacity \<Rightarrow> string list \<Rightarrow> WriteReservation wop" where
  "decide_reserve E q headroom remaining slots =
     bind_op (return_op (admits q remaining slots)) (\<lambda>ok.
     if \<not> ok then
       bind_op (record_refusal_locked E q headroom (cp_bytes remaining)) (\<lambda>_. return_op (Inl ReservationUnavailable))
     else
       bind_op (return_op (capacity_sub remaining (rq_need q))) (\<lambda>left s2.
       let r = granted_reservation E q headroom left slots s2
       in bind_op (append_locked E None r) (\<lambda>_.
          bind_op (take_extent E r) (\<lambda>_. return_op (Inr r))) s2))"

lemma reserve_new_measures:
  assumes run: "reserve_new E q s = (out, s')" and slots: "\<And>pool. distinct (map fst (wa_slots s pool))"
  obtains (silent) "unwritten s out s'"
  | (decided) headroom remaining slots s1 where "measured E q s remaining slots s1"
      "decide_reserve E q headroom remaining slots s1 = (out, s')"
proof -
  obtain hr s0 where h: "headroom_locked E s = (hr, s0)" by (cases "headroom_locked E s")
  note all = headroom_of_same [of E all_pools s hr s0, OF h [unfolded headroom_locked_def]]
  have same0: "same_ledger s s0" "wa_extent s0 = wa_extent s" using all by blast+
  show ?thesis
  proof (cases hr)
    case (Inl e)
    then have "unwritten s out s'" using run h same0 by (auto simp: reserve_new_def bind_op_def unwritten_def)
    then show ?thesis by (rule silent)
  next
    case hr: (Inr headroom)
    show ?thesis
    proof (cases "map_of headroom (rq_pool q)")
      case None
      then have "unwritten s out s'"
        using run h hr same0 by (auto simp: reserve_new_def bind_op_def return_op_def unwritten_def)
      then show ?thesis by (rule silent)
    next
      case (Some remaining)
      obtain slots' s1 where av: "available_object_slots_locked E (rq_pool q) (cp_objects (rq_need q)) s0 = (slots', s1)"
        by (cases "available_object_slots_locked E (rq_pool q) (cp_objects (rq_need q)) s0")
      note same1 = available_slots_same [OF av]
      have names: "map fst (wa_slots s1 pool) = map fst (wa_slots s0 pool)" "map fst (wa_slots s0 pool) = map fst (wa_slots s pool)" for pool
        using same1(1) same0(1) by (simp_all add: same_ledger_def)
      have "distinct (map fst (wa_slots s0 (rq_pool q)))" using slots names by simp
      note free = available_slots_free [OF av this]
      have "measured E q s remaining slots' s1"
        unfolding measured_def
        using same0 same1 same_ledger_trans all hr Some free same_ledgerD(4) [OF same1(1)] names(1) by auto
      moreover have "decide_reserve E q headroom remaining slots' s1 = (out, s')"
        using run h hr Some av by (simp add: reserve_new_def decide_reserve_def bind_op_def [of "headroom_locked E"])
      ultimately show ?thesis by (rule decided)
    qed
  qed
qed

lemma record_refusal_cases:
  assumes "record_refusal_locked E q h l s = (ro, s2)"
  shows "s2 = s \<or> (\<exists>lp. s2 = put_row lp (next_row (refused_reservation E q h l s) s) s)"
proof -
  obtain lp where "(ro, s2) = (Inr (), s) \<or> append_locked E (Some lp) (refused_reservation E q h l s) s = (ro, s2)"
    using assms unfolding record_refusal_locked_def Let_def by (metis (full_types))
  then show ?thesis by (cases ro) (use append_locked_Inr append_locked_Inl in \<open>fastforce+\<close>)
qed

text \<open>The three outcomes of a new reservation: nothing written, a refusal written, or a grant written
  and its bytes taken from the extent.\<close>

lemma decide_reserve_cases:
  assumes "decide_reserve E q headroom remaining slots s1 = (out, s')"
  obtains (silent) e where "s' = s1" "out = Inl e"
  | (refused) e lp where "s' = put_row lp (next_row (refused_reservation E q headroom (cp_bytes remaining) s1) s1) s1" "out = Inl e"
  | (granted) left taken where "fits remaining (rq_need q)"
      "append_locked E None (granted_reservation E q headroom left slots s1) s1
         = (Inr (), put_row (rq_pool q) (next_row (granted_reservation E q headroom left slots s1) s1) s1)"
      "take_extent E (granted_reservation E q headroom left slots s1)
         (put_row (rq_pool q) (next_row (granted_reservation E q headroom left slots s1) s1) s1) = (taken, s')"
      "out = (case taken of Inl e \<Rightarrow> Inl e | Inr _ \<Rightarrow> Inr (granted_reservation E q headroom left slots s1))"
proof (cases "admits q remaining slots")
  case (Inl e)
  then show ?thesis using assms silent by (auto simp: decide_reserve_def)
next
  case adm: (Inr ok)
  show ?thesis
  proof (cases ok)
    case False
    obtain ro s2 where ref: "record_refusal_locked E q headroom (cp_bytes remaining) s1 = (ro, s2)"
      by (cases "record_refusal_locked E q headroom (cp_bytes remaining) s1")
    then have "s' = s2" "\<exists>e. out = Inl e"
      using assms adm False by (auto simp: decide_reserve_def bind_op_def return_op_def split: sum.splits)
    then show ?thesis using record_refusal_cases [OF ref] silent refused by blast
  next
    case True
    have fit: "fits remaining (rq_need q)" using adm True by (auto simp: admits_def split: if_splits)
    show ?thesis
    proof (cases "capacity_sub remaining (rq_need q)")
      case (Inl e)
      then show ?thesis using assms adm True silent by (auto simp: decide_reserve_def)
    next
      case (Inr left)
      let ?r = "granted_reservation E q headroom left slots s1"
      have run: "bind_op (append_locked E None ?r) (\<lambda>_. bind_op (take_extent E ?r) (\<lambda>_. return_op (Inr ?r))) s1 = (out, s')"
        using assms adm True Inr by (simp add: decide_reserve_def Let_def)
      obtain ao s2 where ap: "append_locked E None ?r s1 = (ao, s2)" by (cases "append_locked E None ?r s1")
      obtain taken s3 where t: "take_extent E ?r s2 = (taken, s3)" by (cases "take_extent E ?r s2")
      show ?thesis
      proof (cases ao)
        case ao: (Inl e)
        then have "s' = s1" "out = Inl e"
          using run ap append_locked_Inl [of E None ?r s1 e s2] by (auto simp: bind_op_def)
        then show ?thesis by (rule silent)
      next
        case ao: (Inr u)
        have s2: "s2 = put_row (rq_pool q) (next_row ?r s1) s1"
          using ap [unfolded ao append_locked_Inr] by simp
        have "s' = s3" "out = (case taken of Inl e \<Rightarrow> Inl e | Inr _ \<Rightarrow> Inr ?r)"
          using run ap ao t by (auto simp: bind_op_def return_op_def split: sum.splits)
        then show ?thesis using granted [OF fit, of left taken] ap ao s2 t by simp
      qed
    qed
  qed
qed

section \<open>The lifecycle\<close>

text \<open>The row that may follow \<open>p\<close> for the same key, apart from a new reservation.\<close>

definition moved :: "WriteReservation \<Rightarrow> WriteReservation \<Rightarrow> bool" where
  "moved p r \<longleftrightarrow> wr_need r = wr_need p \<and> wr_pool r = wr_pool p \<and> wr_object_slots r = wr_object_slots p
     \<and> wr_retention r = (if wr_state r = ABORTED \<or> wr_state r = RELEASED then RELEASE else wr_retention p)
     \<and> ((wr_state p, wr_state r) \<in> {(RESERVED, STARTED), (RESERVED, ABORTED), (RESERVED, TERMINAL),
          (STARTED, COMMITTED), (STARTED, POSSIBLY_SENT), (POSSIBLY_SENT, TERMINAL)}
        \<or> wr_state r = RELEASED \<and> retains_object (wr_retention p) \<and> wr_state p \<in> set FINAL_STATES)"

definition legal_row :: "authority \<Rightarrow> WriteReservation \<Rightarrow> bool" where
  "legal_row s r \<longleftrightarrow>
     (case current_locked (wr_key r) s of
        None \<Rightarrow> granted_row s r \<or> refused_row r
      | Some p \<Rightarrow> wr_effect_fingerprint r = wr_effect_fingerprint p
          \<and> (moved p r \<or> (wr_state p = ABORTED \<or> wr_state p = RELEASED) \<and> (granted_row s r \<or> refused_row r)))"

text \<open>Every operation is a sequence of legal rows and of file operations.\<close>

inductive evolve :: "authority \<Rightarrow> authority \<Rightarrow> bool" where
  evolve_refl: "evolve s s"
| evolve_files: "evolve s s1 \<Longrightarrow> same_ledger s1 s2 \<Longrightarrow> evolve s s2"
| evolve_boot: "evolve s s1 \<Longrightarrow> evolve s (s1\<lparr>wa_boot := boot\<rparr>)"
| evolve_row: "evolve s s1 \<Longrightarrow> legal_row s1 r \<Longrightarrow> evolve s (put_row pool (next_row r s1) s1)"

lemma evolve_trans: "evolve s1 s2 \<Longrightarrow> evolve s s1 \<Longrightarrow> evolve s s2"
  by (induction rule: evolve.induct) (auto intro: evolve.intros)

lemma evolve_names: "evolve s s' \<Longrightarrow> map fst (wa_slots s' pool) = map fst (wa_slots s pool)"
  by (induction rule: evolve.induct) (auto simp: same_ledger_def)

definition slots_named :: "authority \<Rightarrow> bool" where
  "slots_named s \<longleftrightarrow> (\<forall>pool. distinct (map fst (wa_slots s pool)))"

lemma slots_named_evolve: "evolve s s' \<Longrightarrow> slots_named s \<Longrightarrow> slots_named s'"
  by (simp add: slots_named_def evolve_names)

lemma current_key: "current_locked k s = Some r \<Longrightarrow> wr_key r = k"
  unfolding current_locked_def latest_locked_def by (drule map_of_dict_of_Some) auto

lemma append_evolves:
  assumes "append_locked E lp r s1 = (out, s2)" "legal_row s1 r" "evolve s s1"
  shows "evolve s s2"
proof (cases out)
  case (Inl e)
  then show ?thesis using append_locked_Inl assms by blast
next
  case (Inr u)
  then have "s2 = put_row (ledger_of lp r) (next_row r s1) s1" using assms(1) append_locked_Inr by simp
  then show ?thesis using evolve_row [OF assms(3,2)] by simp
qed

lemma take_extent_evolves:
  assumes "take_extent E r s1 = (out, s2)" "current_locked (wr_key r) s1 = Some (as_loaded r)" "wr_state r = RESERVED"
  shows "evolve s1 s2"
proof -
  let ?a = "transitioned ABORTED None None (Some RELEASE) r"
  obtain so s3 where sh: "shrink_extent_locked E (wr_pool r) (cp_bytes (wr_need r)) s1 = (so, s3)"
    by (cases "shrink_extent_locked E (wr_pool r) (cp_bytes (wr_need r)) s1")
  have same: "same_ledger s1 s3" using shrink_same [OF sh] by blast
  show ?thesis
  proof (cases so)
    case (Inr u)
    then have "s2 = s3" using assms(1) sh by (simp add: take_extent_def)
    then show ?thesis using same evolve_files evolve_refl by blast
  next
    case (Inl e)
    have "legal_row s3 ?a"
      using assms(2,3) same_ledgerD(3) [OF same] by (simp add: legal_row_def moved_def)
    moreover obtain ao s4 where ap: "append_locked E None ?a s3 = (ao, s4)" by (cases "append_locked E None ?a s3")
    ultimately have "evolve s1 s4" using append_evolves evolve_files [OF evolve_refl same] by blast
    moreover have "s2 = s4 \<or> s2 = give_back E ?a s4"
      using assms(1) sh Inl ap by (auto simp: take_extent_def Let_def split: sum.splits)
    ultimately show ?thesis using evolve_files give_back_same by blast
  qed
qed

lemma reserve_new_evolves:
  assumes run: "reserve_new E q s = (out, s')" and named: "slots_named s"
    and key: "case current_locked (rq_key q) s of None \<Rightarrow> True
      | Some p \<Rightarrow> wr_effect_fingerprint p = fingerprint (we_env E) (rq_identity q) \<and> (wr_state p = ABORTED \<or> wr_state p = RELEASED)"
  shows "evolve s s'"
proof -
  have "\<And>pool. distinct (map fst (wa_slots s pool))" using named by (simp add: slots_named_def)
  from run this show ?thesis
  proof (cases rule: reserve_new_measures)
    case silent
    then show ?thesis using evolve_files evolve_refl by (auto simp: unwritten_def)
  next
    case (decided headroom remaining slots s1)
    have same: "same_ledger s s1" using decided(1) by (simp add: measured_def)
    have legal: "legal_row s1 r" if "wr_key r = rq_key q" "granted_row s1 r \<or> refused_row r"
      "wr_effect_fingerprint r = fingerprint (we_env E) (rq_identity q)" for r
      using that key same_ledgerD(3) [OF same] by (auto simp: legal_row_def split: option.splits)
    have start: "evolve s s1" by (rule evolve_files [OF evolve_refl same])
    from decided(2) show ?thesis
    proof (cases rule: decide_reserve_cases)
      case silent
      then show ?thesis using start by simp
    next
      case refused
      then show ?thesis using evolve_row [OF start legal] by simp
    next
      case (granted left taken)
      let ?r = "granted_reservation E q headroom left slots s1"
      have "granted_row s1 ?r" using decided(1) by (simp add: granted_row_def measured_def)
      then have "evolve s (put_row (rq_pool q) (next_row ?r s1) s1)" using evolve_row [OF start legal] by simp
      moreover have "evolve (put_row (rq_pool q) (next_row ?r s1) s1) s'"
        by (rule take_extent_evolves [OF granted(3)]) simp_all
      ultimately show ?thesis using evolve_trans by blast
    qed
  qed
qed

lemma call_hook_state [simp]: "snd (call_hook E phase s) = s"
  by (simp add: call_hook_def return_op_def)

lemma bind_op_evolves:
  assumes "\<And>out s1. m s = (out, s1) \<Longrightarrow> evolve s s1"
    and "\<And>x s1. m s = (Inr x, s1) \<Longrightarrow> evolve s1 (snd (f x s1))"
  shows "evolve s (snd (bind_op m f s))"
proof (cases "m s")
  case (Pair out s1)
  then show ?thesis using assms evolve_trans by (cases out) (auto simp: bind_op_def)
qed

lemma reserve_locked_evolves:
  assumes "slots_named s"
  shows "evolve s (snd (reserve_write_locked E q s))"
proof -
  have fresh: "evolve s (snd (bind_op (reserve_new E q) (\<lambda>r. return_op (Inr (r, True))) s))"
    if "case current_locked (rq_key q) s of None \<Rightarrow> True
      | Some p \<Rightarrow> wr_effect_fingerprint p = fingerprint (we_env E) (rq_identity q) \<and> (wr_state p = ABORTED \<or> wr_state p = RELEASED)"
    by (rule bind_op_evolves) (use reserve_new_evolves [OF _ assms that] in \<open>auto simp: return_op_def intro: evolve_refl\<close>)
  show ?thesis
  proof (cases "current_locked (rq_key q) s")
    case None
    then show ?thesis using fresh by (simp add: reserve_write_locked_def Let_def)
  next
    case (Some p)
    show ?thesis
    proof (cases "wr_effect_fingerprint p = fingerprint (we_env E) (rq_identity q) \<and> retryable q p")
      case True
      then show ?thesis using fresh Some
        by (auto simp: reserve_write_locked_def Let_def assert_same_effect_def guard_res_def retryable_def)
    next
      case False
      then have "snd (reserve_write_locked E q s) = s" using Some
        by (auto simp: reserve_write_locked_def Let_def assert_same_effect_def guard_res_def bind_op_def return_op_def)
      then show ?thesis using evolve_refl by simp
    qed
  qed
qed

lemma reserve_evolves:
  assumes "slots_named s"
  shows "evolve s (snd (reserve_write E q s))"
proof -
  obtain out s1 where r: "reserve_write_locked E q s = (out, s1)" by (cases "reserve_write_locked E q s")
  have "snd (reserve_write E q s) = s \<or> snd (reserve_write E q s) = s1"
    using r by (cases out)
      (auto simp: reserve_write_def bind_op_def return_op_def call_hook_def split: sum.splits prod.splits option.splits)
  then show ?thesis using reserve_locked_evolves [OF assms, of E q] r evolve_refl by auto
qed

lemma require_current_Inr:
  "require_current_locked r s = (out, s') \<Longrightarrow> s' = s"
  "require_current_locked r s = (Inr c, s') \<Longrightarrow> current_locked (wr_key r) s = Some c \<and> wr_key c = wr_key r"
  using current_key by (auto simp: require_current_locked_def bind_res_Inr_iff)

text \<open>An operation on the current reservation: it may append one legal row and then only touch files.\<close>

lemma on_current_evolves:
  assumes "\<And>c. current_locked (wr_key r) s = Some c \<Longrightarrow> wr_key c = wr_key r \<Longrightarrow> evolve s (snd (f c s))"
  shows "evolve s (snd (bind_op (require_current_locked r) f s))"
  by (rule bind_op_evolves) (use require_current_Inr assms evolve_refl in blast)+

lemma row_then_files:
  assumes "legal_row s r" "\<And>s1. same_ledger s1 (g s1)"
  shows "evolve s (snd (bind_op (append_locked E None r) (\<lambda>_ s1. (out, g s1)) s))"
  by (rule bind_op_evolves)
    (use append_evolves [OF _ assms(1) evolve_refl] evolve_files [OF evolve_refl assms(2)] in auto)

lemma row_then_return:
  assumes "legal_row s r"
  shows "evolve s (snd (bind_op (append_locked E None r) (\<lambda>_. return_op out) s))"
  by (rule bind_op_evolves) (use append_evolves [OF _ assms evolve_refl] evolve_refl in \<open>auto simp: return_op_def\<close>)

lemma legal_move:
  assumes "current_locked k s = Some c" "wr_key r = k" "wr_effect_fingerprint r = wr_effect_fingerprint c" "moved c r"
  shows "legal_row s r"
  using assms by (simp add: legal_row_def)

lemma claim_start_evolves: "evolve s (snd (claim_start E r s))"
  unfolding claim_start_def
proof (rule on_current_evolves)
  fix c
  assume c: "current_locked (wr_key r) s = Some c" "wr_key c = wr_key r"
  let ?t = "transitioned STARTED None None None c"
  show "evolve s (snd ((if wr_state c \<noteq> RESERVED then return_op (Inr (c, False))
      else let started = ?t in bind_op (append_locked E None started) (\<lambda>_. return_op (Inr (started, True)))) s))"
  proof (cases "wr_state c = RESERVED")
    case True
    then have "legal_row s ?t" using c(2) by (intro legal_move [OF c(1)]) (simp_all add: moved_def)
    then show ?thesis using True row_then_return by (simp add: Let_def)
  next
    case False
    then show ?thesis by (simp add: return_op_def evolve_refl)
  qed
qed

lemma finish_evolves: "evolve s (snd (finish E r st obs s))"
  unfolding finish_def
proof (rule on_current_evolves)
  fix c
  assume c: "current_locked (wr_key r) s = Some c" "wr_key c = wr_key r"
  let ?t = "transitioned st (Some (bounded_dict E obs)) None (Some (if st = ABORTED then RELEASE else wr_retention c)) c"
  show "evolve s (snd ((if wr_state c \<in> set FINAL_STATES then return_op (Inr c)
     else
       bind_op (return_op (guard_res (allowed_from st = Some (wr_state c)) ReservationConflict)) (\<lambda>_.
       let ended = ?t
       in bind_op (append_locked E None ended) (\<lambda>_ s.
          (Inr ended, if retains_object (wr_retention ended) then s else give_back E ended s)))) s))"
  proof (cases "wr_state c \<notin> set FINAL_STATES \<and> allowed_from st = Some (wr_state c)")
    case True
    then have "legal_row s ?t" using c(2) by (intro legal_move [OF c(1)]) (cases st; simp_all add: moved_def)+
    then have "evolve s (snd (bind_op (append_locked E None ?t) (\<lambda>_ s.
        (Inr ?t, if retains_object (wr_retention ?t) then s else give_back E ?t s)) s))"
      by (rule row_then_files) (simp add: give_back_same)
    then show ?thesis using True by (simp add: Let_def guard_res_def)
  next
    case False
    then show ?thesis by (auto simp: return_op_def guard_res_def bind_op_def evolve_refl)
  qed
qed

lemma refuse_indeterminate_evolves: "evolve s (snd (refuse_indeterminate E r reason s))"
  unfolding refuse_indeterminate_def
proof (rule on_current_evolves)
  fix c
  assume c: "current_locked (wr_key r) s = Some c" "wr_key c = wr_key r"
  let ?t = "transitioned TERMINAL (Some [(''classification'', JStr (bounded_text E reason))]) None None c"
  show "evolve s (snd ((if wr_state c = TERMINAL then return_op (Inr c)
     else
       bind_op (return_op (guard_res (wr_state c = POSSIBLY_SENT) ReservationConflict)) (\<lambda>_.
       let ended = ?t in bind_op (append_locked E None ended) (\<lambda>_. return_op (Inr ended)))) s))"
  proof (cases "wr_state c = POSSIBLY_SENT")
    case True
    then have "legal_row s ?t" using c(2) by (intro legal_move [OF c(1)]) (simp_all add: moved_def)
    then show ?thesis using True row_then_return by (simp add: Let_def guard_res_def)
  next
    case False
    then show ?thesis by (auto simp: return_op_def guard_res_def bind_op_def evolve_refl)
  qed
qed

lemma release_retained_evolves: "evolve s (snd (release_retained E r reason s))"
  unfolding release_retained_def
proof (rule on_current_evolves)
  fix c
  assume c: "current_locked (wr_key r) s = Some c" "wr_key c = wr_key r"
  let ?t = "transitioned RELEASED (Some [(''reason'', JStr (bounded_text E reason))]) None (Some RELEASE) c"
  show "evolve s (snd ((if wr_state c = RELEASED then return_op (Inr c)
     else
       bind_op (return_op (guard_res (retains_object (wr_retention c) \<and> wr_state c \<in> set FINAL_STATES)
         ReservationConflict)) (\<lambda>_.
       let released = ?t in bind_op (append_locked E None released) (\<lambda>_ s. (Inr released, give_back E released s)))) s))"
  proof (cases "wr_state c \<noteq> RELEASED \<and> retains_object (wr_retention c) \<and> wr_state c \<in> set FINAL_STATES")
    case True
    then have "legal_row s ?t" using c(2) by (intro legal_move [OF c(1)]) (simp_all add: moved_def)
    then have "evolve s (snd (bind_op (append_locked E None ?t) (\<lambda>_ s1. (Inr ?t, give_back E ?t s1)) s))"
      by (rule row_then_files) (rule give_back_same)
    then show ?thesis using True by (simp add: Let_def guard_res_def)
  next
    case False
    then show ?thesis by (auto simp: return_op_def guard_res_def bind_op_def evolve_refl)
  qed
qed

lemma files_evolve: "same_ledger s (snd (m s)) \<Longrightarrow> evolve s (snd (m s))"
  by (rule evolve_files [OF evolve_refl])

lemma write_object_evolves: "evolve s (snd (write_object E r doc s))"
  by (rule files_evolve) (use write_object_same in \<open>metis prod.collapse\<close>)

lemma write_receipt_evolves: "evolve s (snd (write_receipt E key s))"
  by (rule files_evolve) (use write_receipt_same in \<open>metis prod.collapse\<close>)

text \<open>The reconciliation runs over the reservations as they were; each key occurs once, so each row still
  follows the latest one of its key.\<close>

definition reconcile_one :: "wenv \<Rightarrow> WriteReservation \<Rightarrow> unit wop" where
  "reconcile_one E r s =
     (if wr_boot_id r = wa_boot s then (Inr (), s)
      else if wr_state r = RESERVED then
        let recovered = transitioned ABORTED (Some [(''reason'', JStr ''restart-before-effect'')]) (Some (wa_boot s))
              (Some RELEASE) r
        in bind_op (append_locked E None recovered) (\<lambda>_ s'. (Inr (), give_back E recovered s')) s
      else if wr_state r = STARTED then
        let recovered = transitioned POSSIBLY_SENT (Some [(''reason'', JStr ''restart-after-effect-admission'')])
              (Some (wa_boot s)) None r
        in bind_op (append_locked E None recovered) (\<lambda>_ s'.
             (Inr (), if retains_object (wr_retention recovered) then s' else give_back E recovered s')) s
      else (Inr (), s))"

lemma reconcile_Cons: "reconcile E (r # rs) = bind_op (reconcile_one E r) (\<lambda>_. reconcile E rs)"
  by (simp add: reconcile_one_def [abs_def])

lemma row_files_current:
  assumes "bind_op (append_locked E None r) (\<lambda>_ s1. (out, g s1)) s = (o', s')" "\<And>s1. same_ledger s1 (g s1)" "k \<noteq> wr_key r"
  shows "current_locked k s' = current_locked k s"
proof -
  obtain ao s1 where ap: "append_locked E None r s = (ao, s1)" by (cases "append_locked E None r s")
  show ?thesis
  proof (cases ao)
    case (Inl e)
    then have "s' = s" using assms(1) ap append_locked_Inl [of E None r s e s1] by (auto simp: bind_op_def)
    then show ?thesis by simp
  next
    case (Inr u)
    then have "s' = g s1" "s1 = put_row (wr_pool r) (next_row r s) s"
      using assms(1) ap append_locked_Inr [of E None r s u s1] by (auto simp: bind_op_def)
    then show ?thesis using same_ledgerD(3) [OF assms(2), of k s1] assms(3) by simp
  qed
qed

lemma reconcile_one_evolves:
  assumes "current_locked (wr_key r) s = Some r"
  shows "evolve s (snd (reconcile_one E r s))"
    "reconcile_one E r s = (out, s') \<Longrightarrow> k \<noteq> wr_key r \<Longrightarrow> current_locked k s' = current_locked k s"
proof -
  let ?a = "transitioned ABORTED (Some [(''reason'', JStr ''restart-before-effect'')]) (Some (wa_boot s)) (Some RELEASE) r"
  let ?p = "transitioned POSSIBLY_SENT (Some [(''reason'', JStr ''restart-after-effect-admission'')]) (Some (wa_boot s)) None r"
  have la: "legal_row s ?a" if "wr_state r = RESERVED" using assms that by (simp add: legal_row_def moved_def)
  have lp: "legal_row s ?p" if "wr_state r = STARTED" using assms that by (simp add: legal_row_def moved_def)
  have fa: "same_ledger s1 (give_back E ?a s1)" for s1 by (rule give_back_same)
  have fp: "same_ledger s1 (if retains_object (wr_retention ?p) then s1 else give_back E ?p s1)" for s1
    using give_back_same by simp
  let ?ma = "bind_op (append_locked E None ?a) (\<lambda>_ s1. (Inr (), give_back E ?a s1)) :: unit wop"
  let ?mp = "bind_op (append_locked E None ?p) (\<lambda>_ s1. (Inr (), if retains_object (wr_retention ?p) then s1 else give_back E ?p s1))
    :: unit wop"
  have one: "reconcile_one E r s = (if wr_boot_id r = wa_boot s then (Inr (), s) else if wr_state r = RESERVED then ?ma s
      else if wr_state r = STARTED then ?mp s else (Inr (), s))"
    unfolding reconcile_one_def Let_def ..
  have "evolve s (snd (?ma s))" if "wr_state r = RESERVED" by (rule row_then_files [OF la [OF that] fa])
  moreover have "evolve s (snd (?mp s))" if "wr_state r = STARTED" by (rule row_then_files [OF lp [OF that] fp])
  ultimately show "evolve s (snd (reconcile_one E r s))"
    unfolding one using evolve_refl by (auto split: if_splits)
  show "current_locked k s' = current_locked k s" if "reconcile_one E r s = (out, s')" "k \<noteq> wr_key r"
  proof -
    have "current_locked k s' = current_locked k s" if "?ma s = (out, s')"
      by (rule row_files_current [OF that fa]) (use \<open>k \<noteq> wr_key r\<close> in simp)
    moreover have "current_locked k s' = current_locked k s" if "?mp s = (out, s')"
      by (rule row_files_current [OF that fp]) (use \<open>k \<noteq> wr_key r\<close> in simp)
    ultimately show ?thesis using that(1) unfolding one by (auto split: if_splits)
  qed
qed

lemma reconcile_evolves:
  assumes "distinct (map wr_key rs)" "\<And>r. r \<in> set rs \<Longrightarrow> current_locked (wr_key r) s = Some r"
  shows "evolve s (snd (reconcile E rs s))"
  using assms
proof (induction rs arbitrary: s)
  case Nil
  then show ?case by (simp add: return_op_def evolve_refl)
next
  case (Cons r rs)
  have r: "current_locked (wr_key r) s = Some r" using Cons.prems(2) by simp
  show ?case
    unfolding reconcile_Cons
  proof (rule bind_op_evolves)
    show "evolve s s1" if "reconcile_one E r s = (out, s1)" for out s1
      using reconcile_one_evolves(1) [OF r, of E] that by simp
    show "evolve s1 (snd (reconcile E rs s1))" if "reconcile_one E r s = (Inr x, s1)" for x s1
    proof (rule Cons.IH)
      show "distinct (map wr_key rs)" using Cons.prems(1) by simp
      show "current_locked (wr_key q) s1 = Some q" if "q \<in> set rs" for q
      proof -
        have "wr_key q \<noteq> wr_key r" using Cons.prems(1) imageI [OF that, of wr_key] by auto
        from reconcile_one_evolves(2) [OF r \<open>reconcile_one E r s = (Inr x, s1)\<close> this]
        show ?thesis using Cons.prems(2) [of q] that by simp
      qed
    qed
  qed
qed

lemma latest_keys: "(k, r) \<in> set (latest_locked s) \<Longrightarrow> wr_key r = k \<and> current_locked k s = Some r"
proof -
  assume in_dict: "(k, r) \<in> set (latest_locked s)"
  have "distinct (map fst (latest_locked s))" unfolding latest_locked_def by (rule distinct_dict_of)
  then have "current_locked k s = Some r" using in_dict by (simp add: current_locked_def)
  then show ?thesis using current_key by blast
qed

lemma latest_distinct: "distinct (map wr_key (map snd (latest_locked s)))"
proof -
  have "map wr_key (map snd (latest_locked s)) = map fst (latest_locked s)" using latest_keys by force
  then show ?thesis unfolding latest_locked_def using distinct_dict_of by metis
qed

lemma write_receipts_evolves: "evolve s (snd (write_receipts E keys s))"
proof (induction keys arbitrary: s)
  case (Cons k keys)
  show ?case unfolding write_receipts.simps
    by (rule bind_op_evolves) (use write_receipt_evolves Cons.IH in \<open>metis snd_conv\<close>)+
qed (simp add: return_op_def evolve_refl)

lemma open_authority_evolves: "evolve s (snd (open_authority E boot s))"
proof -
  let ?s = "s\<lparr>wa_boot := boot\<rparr>"
  have "evolve ?s (snd (open_authority E boot s))"
    unfolding open_authority_def
  proof (rule bind_op_evolves)
    show "evolve ?s s1" if "reconcile_prior_boots_locked E ?s = (out, s1)" for out s1
    proof -
      have "evolve ?s (snd (reconcile E (map snd (latest_locked ?s)) ?s))"
        by (rule reconcile_evolves [OF latest_distinct]) (use latest_keys in fastforce)
      then show ?thesis using that by (simp add: reconcile_prior_boots_locked_def)
    qed
  qed (rule write_receipts_evolves)
  then show ?thesis using evolve_boot [OF evolve_refl] evolve_trans by blast
qed

section \<open>Reachable authorities\<close>

datatype call =
    Reserve request
  | Start WriteReservation
  | Finish WriteReservation ReservationState payload
  | Refuse WriteReservation string
  | Release WriteReservation string
  | Write WriteReservation payload
  | Receipt string
  | Boot string

fun perform :: "wenv \<Rightarrow> call \<Rightarrow> authority \<Rightarrow> authority" where
  "perform E (Reserve q) s = snd (reserve_write E q s)"
| "perform E (Start r) s = snd (claim_start E r s)"
| "perform E (Finish r st obs) s = snd (finish E r st obs s)"
| "perform E (Refuse r reason) s = snd (refuse_indeterminate E r reason s)"
| "perform E (Release r reason) s = snd (release_retained E r reason s)"
| "perform E (Write r doc) s = snd (write_object E r doc s)"
| "perform E (Receipt key) s = snd (write_receipt E key s)"
| "perform E (Boot boot) s = snd (open_authority E boot s)"

text \<open>A need is a \<open>Capacity\<close>, whose constructor refuses negative amounts.\<close>

fun call_ok :: "call \<Rightarrow> bool" where
  "call_ok (Reserve q) = (new_capacity (rq_need q) = Inr (rq_need q))"
| "call_ok _ = True"

inductive reachable :: "wenv \<Rightarrow> WriteProfile \<Rightarrow> authority \<Rightarrow> bool" where
  reachable_new: "reachable E p (provision p)"
| reachable_call: "reachable E p s \<Longrightarrow> call_ok c \<Longrightarrow> reachable E p (perform E c s)"

lemma perform_evolves: "slots_named s \<Longrightarrow> evolve s (perform E c s)"
  by (cases c) (simp_all add: reserve_evolves claim_start_evolves finish_evolves refuse_indeterminate_evolves
      release_retained_evolves write_object_evolves write_receipt_evolves open_authority_evolves)

section \<open>Invariants\<close>

text \<open>An aborted, refused or released reservation retains nothing, and two reservations that hold slots of
  one pool share none.\<close>

definition slots_ok :: "authority \<Rightarrow> bool" where
  "slots_ok s \<longleftrightarrow> slots_named s
     \<and> (\<forall>k r. current_locked k s = Some r \<longrightarrow>
          (wr_state r \<in> {ABORTED, REFUSED, RELEASED} \<longrightarrow> wr_retention r = RELEASE)
          \<and> distinct (wr_object_slots r) \<and> set (wr_object_slots r) \<subseteq> set (map fst (wa_slots s (wr_pool r))))
     \<and> (\<forall>k r k' r'. current_locked k s = Some r \<longrightarrow> current_locked k' s = Some r' \<longrightarrow> k \<noteq> k' \<longrightarrow> holds r \<longrightarrow> holds r'
          \<longrightarrow> wr_pool r = wr_pool r' \<longrightarrow> set (wr_object_slots r) \<inter> set (wr_object_slots r') = {})"

lemma slots_okD:
  assumes "slots_ok s"
  shows "slots_named s"
    "current_locked k s = Some r \<Longrightarrow> wr_state r \<in> {ABORTED, REFUSED, RELEASED} \<Longrightarrow> wr_retention r = RELEASE"
    "current_locked k s = Some r \<Longrightarrow> distinct (wr_object_slots r)"
    "current_locked k s = Some r \<Longrightarrow> set (wr_object_slots r) \<subseteq> set (map fst (wa_slots s (wr_pool r)))"
    "current_locked k s = Some r \<Longrightarrow> current_locked k' s = Some r' \<Longrightarrow> k \<noteq> k' \<Longrightarrow> holds r \<Longrightarrow> holds r'
       \<Longrightarrow> wr_pool r = wr_pool r' \<Longrightarrow> set (wr_object_slots r) \<inter> set (wr_object_slots r') = {}"
  using assms unfolding slots_ok_def by blast+

lemma slots_ok_same: "same_ledger s s' \<Longrightarrow> slots_ok s \<Longrightarrow> slots_ok s'"
  unfolding slots_ok_def slots_named_def same_ledgerD(3) by (simp add: same_ledger_def)

lemma moved_holds: "moved p r \<Longrightarrow> holds r \<Longrightarrow> holds p"
  by (auto simp: moved_def holds_def retains_object_def split: if_splits)

text \<open>What a legal row brings: the slots of the row before it, or slots that nobody holds.\<close>

lemma legal_row_slots:
  assumes "slots_ok s" "legal_row s r"
  shows "wr_state r \<in> {ABORTED, REFUSED, RELEASED} \<Longrightarrow> wr_retention r = RELEASE"
    "distinct (wr_object_slots r)" "set (wr_object_slots r) \<subseteq> set (map fst (wa_slots s (wr_pool r)))"
    "current_locked k' s = Some r' \<Longrightarrow> k' \<noteq> wr_key r \<Longrightarrow> holds r \<Longrightarrow> holds r' \<Longrightarrow> wr_pool r = wr_pool r'
       \<Longrightarrow> set (wr_object_slots r) \<inter> set (wr_object_slots r') = {}"
proof -
  consider (new) "granted_row s r" | (refused) "refused_row r"
    | (moved) p where "current_locked (wr_key r) s = Some p" "moved p r"
    using assms(2) unfolding legal_row_def by (auto split: option.splits)
  note kinds = this
  from kinds show "wr_retention r = RELEASE" if "wr_state r \<in> {ABORTED, REFUSED, RELEASED}"
  proof cases
    case moved
    then show ?thesis using that by (auto simp: moved_def)
  qed (use that in \<open>auto simp: granted_row_def refused_row_def\<close>)
  from kinds show "distinct (wr_object_slots r)"
  proof cases
    case moved
    then show ?thesis using slots_okD(3) [OF assms(1) moved(1)] by (simp add: moved_def)
  qed (simp_all add: granted_row_def refused_row_def)
  from kinds show "set (wr_object_slots r) \<subseteq> set (map fst (wa_slots s (wr_pool r)))"
  proof cases
    case moved
    then show ?thesis using slots_okD(4) [OF assms(1) moved(1)] by (simp add: moved_def)
  qed (simp_all add: granted_row_def refused_row_def)
  show "set (wr_object_slots r) \<inter> set (wr_object_slots r') = {}"
    if r': "current_locked k' s = Some r'" "k' \<noteq> wr_key r" "holds r" "holds r'" "wr_pool r = wr_pool r'"
    using kinds
  proof cases
    case new
    then show ?thesis using r' held_sound [of r' "wr_pool r" s] by (auto simp: granted_row_def)
  next
    case refused
    then show ?thesis by (simp add: refused_row_def)
  next
    case moved
    then show ?thesis
      using slots_okD(5) [OF assms(1) moved(1) r'(1)] r' moved_holds [OF moved(2)] by (simp add: moved_def)
  qed
qed

lemma slots_ok_row:
  assumes ok: "slots_ok s" and legal: "legal_row s r"
  shows "slots_ok (put_row pool (next_row r s) s)"
  unfolding slots_ok_def
proof (intro conjI allI impI)
  note new = legal_row_slots [OF ok legal]
  show "slots_named (put_row pool (next_row r s) s)" using slots_okD(1) [OF ok] by (simp add: slots_named_def)
  fix k x
  assume x: "current_locked k (put_row pool (next_row r s) s) = Some x"
  show "wr_retention x = RELEASE" if "wr_state x \<in> {ABORTED, REFUSED, RELEASED}"
    using x that new(1) slots_okD(2) [OF ok] by (auto split: if_splits)
  show "distinct (wr_object_slots x)" using x new(2) slots_okD(3) [OF ok] by (auto split: if_splits)
  show "set (wr_object_slots x) \<subseteq> set (map fst (wa_slots (put_row pool (next_row r s) s) (wr_pool x)))"
    using x new(3) slots_okD(4) [OF ok] by (auto split: if_splits)
  fix k' y
  assume y: "current_locked k' (put_row pool (next_row r s) s) = Some y" "k \<noteq> k'" "holds x" "holds y" "wr_pool x = wr_pool y"
  show "set (wr_object_slots x) \<inter> set (wr_object_slots y) = {}"
  proof (cases "k = wr_key r")
    case True
    then show ?thesis using x y new(4) [of k' y] by auto
  next
    case k: False
    show ?thesis
    proof (cases "k' = wr_key r")
      case True
      then show ?thesis using x y k new(4) [of k x] by auto
    next
      case False
      then show ?thesis using x y k slots_okD(5) [OF ok, of k x k' y] by simp
    qed
  qed
qed

lemma slots_ok_evolve: "evolve s s' \<Longrightarrow> slots_ok s \<Longrightarrow> slots_ok s'"
proof (induction rule: evolve.induct)
  case (evolve_boot s s1 boot)
  have "current_locked k (s1\<lparr>wa_boot := boot\<rparr>) = current_locked k s1" for k
    by (simp add: current_locked_def latest_locked_def rows_locked_def)
  then show ?case using evolve_boot unfolding slots_ok_def slots_named_def by simp
qed (simp_all add: slots_ok_same slots_ok_row)

text \<open>How often a key was started, and whether it was ever released.\<close>

definition starts :: "string \<Rightarrow> authority \<Rightarrow> nat" where
  "starts k s = length (filter (\<lambda>row. wr_key (lr_reservation row) = k \<and> wr_state (lr_reservation row) = STARTED) (rows_locked s))"

definition released :: "string \<Rightarrow> authority \<Rightarrow> bool" where
  "released k s = list_ex (\<lambda>row. wr_key (lr_reservation row) = k \<and> wr_state (lr_reservation row) = RELEASED) (rows_locked s)"

lemma starts_put: "starts k (put_row pool (next_row r s) s) = starts k s + of_bool (wr_key r = k \<and> wr_state r = STARTED)"
  by (simp add: starts_def) (simp add: next_row_def)

lemma released_put: "released k (put_row pool (next_row r s) s) \<longleftrightarrow> released k s \<or> wr_key r = k \<and> wr_state r = RELEASED"
  by (simp add: released_def) (simp add: next_row_def)

text \<open>The number of starts that a state of a never released key allows.\<close>

fun counted :: "ReservationState option \<Rightarrow> nat \<Rightarrow> bool" where
  "counted (Some STARTED) n = (n = 1)"
| "counted (Some COMMITTED) n = (n = 1)"
| "counted (Some POSSIBLY_SENT) n = (n = 1)"
| "counted (Some TERMINAL) n = (n \<le> 1)"
| "counted (Some RELEASED) n = False"
| "counted _ n = (n = 0)"

definition once :: "string \<Rightarrow> authority \<Rightarrow> bool" where
  "once k s \<longleftrightarrow> released k s \<or> counted (map_option wr_state (current_locked k s)) (starts k s)"

lemma once_row:
  assumes "once k s" "legal_row s r"
  shows "once k (put_row pool (next_row r s) s)"
proof (cases "wr_key r = k \<and> \<not> released k (put_row pool (next_row r s) s)")
  case False
  then show ?thesis using assms(1) by (auto simp: once_def starts_put released_put split: if_splits)
next
  case True
  then have k: "wr_key r = k" and unreleased: "\<not> released k s" "wr_state r \<noteq> RELEASED" by (simp_all add: released_put)
  show ?thesis
  proof (cases "current_locked k s")
    case None
    then have "wr_state r = RESERVED \<or> wr_state r = REFUSED"
      using assms(2) k by (auto simp: legal_row_def granted_row_def refused_row_def)
    then show ?thesis using assms(1) None k unreleased by (auto simp: once_def starts_put)
  next
    case (Some p)
    then consider "(wr_state p, wr_state r) \<in> {(RESERVED, STARTED), (RESERVED, ABORTED), (RESERVED, TERMINAL),
          (STARTED, COMMITTED), (STARTED, POSSIBLY_SENT), (POSSIBLY_SENT, TERMINAL)}"
      | "wr_state p = ABORTED \<or> wr_state p = RELEASED" "wr_state r = RESERVED \<or> wr_state r = REFUSED"
      using assms(2) k unreleased(2) by (auto simp: legal_row_def granted_row_def refused_row_def moved_def)
    then show ?thesis
      by cases (use assms(1) Some k unreleased in \<open>auto simp: once_def starts_put\<close>)
  qed
qed

lemma once_evolve: "evolve s s' \<Longrightarrow> once k s \<Longrightarrow> once k s'"
proof (induction rule: evolve.induct)
  case (evolve_files s s1 s2)
  then show ?case by (simp add: once_def starts_def released_def same_ledgerD)
next
  case (evolve_boot s s1 boot)
  have "rows_locked (s1\<lparr>wa_boot := boot\<rparr>) = rows_locked s1" by (simp add: rows_locked_def)
  then show ?case using evolve_boot by (simp add: once_def starts_def released_def current_locked_def latest_locked_def)
qed (simp_all add: once_row)

lemma released_evolve: "evolve s s' \<Longrightarrow> released k s \<Longrightarrow> released k s'"
proof (induction rule: evolve.induct)
  case (evolve_boot s s1 boot)
  then show ?case by (simp add: released_def rows_locked_def)
qed (simp_all add: released_put released_def [of _ "_ :: authority"] same_ledgerD(1))

lemma slot_name_inj: "slot_name i = slot_name j \<Longrightarrow> i = j"
proof -
  assume "slot_name i = slot_name j"
  then have "replicate (4 - length (show_nat i)) (CHR ''0'') @ show_nat i = replicate (4 - length (show_nat j)) (CHR ''0'') @ show_nat j"
    by (simp add: slot_name_def Let_def)
  moreover have "CHR ''0'' = digit_char 0" by code_simp
  ultimately have "read_nat (show_nat i) = read_nat (show_nat j)" using read_nat_zeros by metis
  then show ?thesis by simp
qed

lemma provision_rows [simp]: "rows_locked (provision p) = []" "latest_locked (provision p) = []"
  by (simp_all add: provision_def rows_locked_def all_pools_def latest_locked_def dict_of_def)

lemma provision_ok: "slots_ok (provision p)" "once k (provision p)"
proof -
  have "distinct (map (\<lambda>i. slot_name i) [0..<n])" for n using slot_name_inj by (simp add: distinct_map inj_on_def)
  then have "slots_named (provision p)" by (simp add: slots_named_def provision_def comp_def)
  then show "slots_ok (provision p)" by (simp add: slots_ok_def current_locked_def)
  show "once k (provision p)" by (simp add: once_def current_locked_def starts_def)
qed

lemma reachable_ok:
  assumes "reachable E p s"
  shows "slots_ok s \<and> once k s"
  using assms
proof (induction rule: reachable.induct)
  case (reachable_call E p s c)
  have "evolve s (perform E c s)" using perform_evolves slots_okD(1) reachable_call by blast
  then show ?case using reachable_call slots_ok_evolve once_evolve by blast
qed (simp add: provision_ok)

section \<open>Conservation of the extents\<close>

definition share :: "Pool \<Rightarrow> WriteReservation \<Rightarrow> int" where
  "share pool r = (if wr_pool r = pool \<and> holds r then cp_bytes (wr_need r) else 0)"

definition held_bytes :: "Pool \<Rightarrow> authority \<Rightarrow> int" where
  "held_bytes pool s = sum_list (map (cp_bytes \<circ> wr_need) (held pool s))"

lemma held_bytes_share: "held_bytes pool s = sum_list (map (share pool \<circ> snd) (latest_locked s))"
proof -
  have "sum_list (map (cp_bytes \<circ> wr_need) (filter (\<lambda>r. wr_pool r = pool \<and> holds r) rs)) = sum_list (map (share pool) rs)" for rs
    by (induction rs) (simp_all add: share_def)
  then show ?thesis by (simp add: held_bytes_def held_def)
qed

lemma sum_dict_set:
  fixes f :: "'v \<Rightarrow> int"
  shows "distinct (map fst d) \<Longrightarrow> sum_list (map (f \<circ> snd) (dict_set k v d)) =
    sum_list (map (f \<circ> snd) d) - (case map_of d k of None \<Rightarrow> 0 | Some u \<Rightarrow> f u) + f v"
proof (induction d)
  case (Cons kv d)
  obtain k' v' where kv: "kv = (k', v')" by (cases kv)
  have "map_of d k' = None" using Cons.prems kv by (simp add: map_of_eq_None_iff)
  then show ?case using Cons kv by (cases "k = k'") simp_all
qed simp

lemma share_loaded [simp]: "share pool (as_loaded r) = share pool r"
  by (simp add: share_def)

lemma held_bytes_put:
  "held_bytes pool (put_row lp (next_row r s) s) =
     held_bytes pool s - (case current_locked (wr_key r) s of None \<Rightarrow> 0 | Some p \<Rightarrow> share pool p) + share pool r"
proof -
  have "distinct (map fst (latest_locked s))" unfolding latest_locked_def by (rule distinct_dict_of)
  from sum_dict_set [OF this, of "share pool" "wr_key r" "as_loaded r"]
  show ?thesis by (simp add: held_bytes_share current_locked_def)
qed

definition bytes_ok :: "authority \<Rightarrow> bool" where
  "bytes_ok s \<longleftrightarrow>
     (\<forall>pool. wa_extent s pool + held_bytes pool s \<le> cp_bytes (pool_capacity (wa_profile s) pool))
     \<and> (\<forall>k r. current_locked k s = Some r \<longrightarrow> 0 \<le> cp_bytes (wr_need r))"

lemma held_bytes_same: "same_ledger s s' \<Longrightarrow> held_bytes pool s' = held_bytes pool s"
  by (simp add: held_bytes_def same_ledgerD(4))

lemma bytes_ok_same: "same_ledger s s' \<Longrightarrow> wa_extent s' = wa_extent s \<Longrightarrow> bytes_ok s \<Longrightarrow> bytes_ok s'"
  by (simp add: bytes_ok_def held_bytes_same same_ledgerD)

lemma give_back_extent:
  "wa_extent (give_back E r s) pool \<le> wa_extent s pool + (if pool = wr_pool r then max (cp_bytes (wr_need r)) 0 else 0)"
proof -
  obtain ok s1 where c: "release_object_slots_locked E r s = (ok, s1)" by (cases "release_object_slots_locked E r s")
  then have "wa_extent s1 = wa_extent s" using release_slots_same by (auto simp: release_object_slots_locked_def)
  then show ?thesis using c by (auto simp: give_back_def replenish_extent_locked_def Let_def)
qed

lemma bytes_move:
  assumes "bytes_ok s" "current_locked (wr_key r) s = Some p" "moved p r" "holds r = holds p"
  shows "bytes_ok (put_row lp (next_row r s) s)"
proof -
  have "share pool r = share pool p" for pool using assms(3,4) by (simp add: share_def moved_def)
  moreover have "cp_bytes (wr_need r) = cp_bytes (wr_need p)" using assms(3) by (simp add: moved_def)
  ultimately show ?thesis using assms(1,2) by (auto simp: bytes_ok_def held_bytes_put)
qed

lemma bytes_close:
  assumes "bytes_ok s" "current_locked (wr_key r) s = Some p" "moved p r" "holds p" "\<not> holds r"
  shows "bytes_ok (give_back E r (put_row lp (next_row r s) s))"
proof -
  let ?s1 = "put_row lp (next_row r s) s"
  have p: "cp_bytes (wr_need r) = cp_bytes (wr_need p)" "wr_pool r = wr_pool p" "0 \<le> cp_bytes (wr_need p)"
    using assms(1-3) by (auto simp: moved_def bytes_ok_def)
  have h: "held_bytes pool (give_back E r ?s1) = held_bytes pool s - share pool p" for pool
    using held_bytes_same [OF give_back_same] assms(2,5) by (simp add: held_bytes_put share_def)
  have x: "wa_extent (give_back E r ?s1) pool \<le> wa_extent s pool + share pool p" for pool
    using give_back_extent [of E r ?s1 pool] p assms(4) by (auto simp: share_def)
  have b: "wa_extent s pool + held_bytes pool s \<le> cp_bytes (pool_capacity (wa_profile s) pool)" for pool
    using assms(1) by (simp add: bytes_ok_def)
  have "wa_extent (give_back E r ?s1) pool + held_bytes pool (give_back E r ?s1)
      \<le> cp_bytes (pool_capacity (wa_profile s) pool)" for pool
    using b [of pool] h [of pool] x [of pool] by linarith
  moreover have "current_locked k (give_back E r ?s1) = (if k = wr_key r then Some (as_loaded r) else current_locked k s)" for k
    using same_ledgerD(3) [OF give_back_same [of ?s1 E r]] by simp
  ultimately show ?thesis
    using assms(1) p same_ledgerD(9) [OF give_back_same [of ?s1 E r]] by (auto simp: bytes_ok_def split: if_splits)
qed

text \<open>An invariant over one row and what follows it.\<close>

lemma bind_op_inv:
  assumes "\<And>e s1. m s = (Inl e, s1) \<Longrightarrow> I s1" "\<And>x s1. m s = (Inr x, s1) \<Longrightarrow> I (snd (f x s1))"
  shows "I (snd (bind_op m f s))"
proof (cases "m s")
  case (Pair out s1)
  show ?thesis
  proof (cases out)
    case (Inl e)
    then show ?thesis using assms(1) Pair by (simp add: bind_op_def)
  next
    case (Inr x)
    then show ?thesis using assms(2) Pair by (simp add: bind_op_def)
  qed
qed

lemma row_then_inv:
  assumes "I s" "\<And>u s1. s1 = put_row (wr_pool r) (next_row r s) s \<Longrightarrow> I (snd (f u s1))"
  shows "I (snd (bind_op (append_locked E None r) f s))"
proof (rule bind_op_inv)
  show "I s1" if "append_locked E None r s = (Inl e, s1)" for e s1
    using append_locked_Inl [OF that] assms(1) by simp
  show "I (snd (f u s1))" if "append_locked E None r s = (Inr u, s1)" for u s1
    using that assms(2) unfolding append_locked_Inr by simp
qed

lemma on_current_inv:
  assumes "I s" "\<And>c. current_locked (wr_key r) s = Some c \<Longrightarrow> wr_key c = wr_key r \<Longrightarrow> I (snd (f c s))"
  shows "I (snd (bind_op (require_current_locked r) f s))"
proof (rule bind_op_inv)
  show "I s1" if "require_current_locked r s = (Inl e, s1)" for e s1
    using require_current_Inr(1) [OF that] assms(1) by simp
  show "I (snd (f c s1))" if "require_current_locked r s = (Inr c, s1)" for c s1
    using require_current_Inr(1) [OF that] require_current_Inr(2) [OF that] assms(2) by simp
qed

lemma holds_live [simp]: "wr_state r = RESERVED \<Longrightarrow> holds r" "wr_state r = STARTED \<Longrightarrow> holds r"
  by (simp_all add: holds_def)

lemma holds_ended:
  "wr_state r \<noteq> RESERVED \<Longrightarrow> wr_state r \<noteq> STARTED \<Longrightarrow> holds r = retains_object (wr_retention r)"
  by (simp add: holds_def)

lemma claim_start_bytes: "bytes_ok s \<Longrightarrow> bytes_ok (snd (claim_start E r s))"
  unfolding claim_start_def
proof (rule on_current_inv)
  fix c
  assume ok: "bytes_ok s" and c: "current_locked (wr_key r) s = Some c" "wr_key c = wr_key r"
  let ?t = "transitioned STARTED None None None c"
  have "bytes_ok (snd (bind_op (append_locked E None ?t) (\<lambda>_. return_op (Inr (?t, True))) s))" if "wr_state c = RESERVED"
    by (rule row_then_inv [where I = bytes_ok, OF ok])
      (use ok bytes_move [of s ?t c] c that in \<open>simp add: return_op_def moved_def\<close>)
  then show "bytes_ok (snd ((if wr_state c \<noteq> RESERVED then return_op (Inr (c, False))
      else let started = ?t in bind_op (append_locked E None started) (\<lambda>_. return_op (Inr (started, True)))) s))"
    using ok by (auto simp: return_op_def Let_def)
qed

lemma finish_bytes: "bytes_ok s \<Longrightarrow> bytes_ok (snd (finish E r st obs s))"
  unfolding finish_def
proof (rule on_current_inv)
  fix c
  assume ok: "bytes_ok s" and c: "current_locked (wr_key r) s = Some c" "wr_key c = wr_key r"
  let ?t = "transitioned st (Some (bounded_dict E obs)) None (Some (if st = ABORTED then RELEASE else wr_retention c)) c"
  have "bytes_ok (snd (bind_op (append_locked E None ?t) (\<lambda>_ s.
      (Inr ?t, if retains_object (wr_retention ?t) then s else give_back E ?t s)) s))"
    if "allowed_from st = Some (wr_state c)"
  proof (rule row_then_inv [where I = bytes_ok, OF ok])
    fix s1
    assume s1: "s1 = put_row (wr_pool ?t) (next_row ?t s) s"
    have m: "moved c ?t" and live: "holds c" and ended: "holds ?t = retains_object (wr_retention ?t)"
      using that by (cases st; simp add: moved_def holds_ended)+
    show "bytes_ok (snd (Inr ?t, if retains_object (wr_retention ?t) then s1 else give_back E ?t s1))"
      unfolding s1 using bytes_move [OF ok, of ?t c] bytes_close [OF ok, of ?t c] c m live ended by simp
  qed
  then show "bytes_ok (snd ((if wr_state c \<in> set FINAL_STATES then return_op (Inr c)
     else
       bind_op (return_op (guard_res (allowed_from st = Some (wr_state c)) ReservationConflict)) (\<lambda>_.
       let ended = ?t
       in bind_op (append_locked E None ended) (\<lambda>_ s.
          (Inr ended, if retains_object (wr_retention ended) then s else give_back E ended s)))) s))"
    using ok by (cases "allowed_from st = Some (wr_state c)") (auto simp: return_op_def Let_def guard_res_def bind_op_def [of "\<lambda>s. (Inl _, s)"])
qed

lemma refuse_indeterminate_bytes: "bytes_ok s \<Longrightarrow> bytes_ok (snd (refuse_indeterminate E r reason s))"
  unfolding refuse_indeterminate_def
proof (rule on_current_inv)
  fix c
  assume ok: "bytes_ok s" and c: "current_locked (wr_key r) s = Some c" "wr_key c = wr_key r"
  let ?t = "transitioned TERMINAL (Some [(''classification'', JStr (bounded_text E reason))]) None None c"
  have "bytes_ok (snd (bind_op (append_locked E None ?t) (\<lambda>_. return_op (Inr ?t)) s))" if "wr_state c = POSSIBLY_SENT"
    by (rule row_then_inv [where I = bytes_ok, OF ok])
      (use ok bytes_move [of s ?t c] c that in \<open>simp add: return_op_def moved_def holds_ended\<close>)
  then show "bytes_ok (snd ((if wr_state c = TERMINAL then return_op (Inr c)
     else
       bind_op (return_op (guard_res (wr_state c = POSSIBLY_SENT) ReservationConflict)) (\<lambda>_.
       let ended = ?t in bind_op (append_locked E None ended) (\<lambda>_. return_op (Inr ended)))) s))"
    using ok by (auto simp: return_op_def Let_def guard_res_def bind_op_def [of "\<lambda>s. (Inl _, s)"])
qed

lemma release_retained_bytes: "bytes_ok s \<Longrightarrow> bytes_ok (snd (release_retained E r reason s))"
  unfolding release_retained_def
proof (rule on_current_inv)
  fix c
  assume ok: "bytes_ok s" and c: "current_locked (wr_key r) s = Some c" "wr_key c = wr_key r"
  let ?t = "transitioned RELEASED (Some [(''reason'', JStr (bounded_text E reason))]) None (Some RELEASE) c"
  have "bytes_ok (snd (bind_op (append_locked E None ?t) (\<lambda>_ s. (Inr ?t, give_back E ?t s)) s))"
    if "retains_object (wr_retention c) \<and> wr_state c \<in> set FINAL_STATES"
  proof (rule row_then_inv [where I = bytes_ok, OF ok])
    fix s1
    assume s1: "s1 = put_row (wr_pool ?t) (next_row ?t s) s"
    have "moved c ?t" "holds c" "\<not> holds ?t" using that by (simp_all add: moved_def holds_def retains_object_def)
    then show "bytes_ok (snd (Inr ?t, give_back E ?t s1))" unfolding s1 using bytes_close [OF ok, of ?t c] c by simp
  qed
  then show "bytes_ok (snd ((if wr_state c = RELEASED then return_op (Inr c)
     else
       bind_op (return_op (guard_res (retains_object (wr_retention c) \<and> wr_state c \<in> set FINAL_STATES)
         ReservationConflict)) (\<lambda>_.
       let released = ?t in bind_op (append_locked E None released) (\<lambda>_ s. (Inr released, give_back E released s)))) s))"
    using ok by (cases "retains_object (wr_retention c) \<and> wr_state c \<in> set FINAL_STATES")
      (auto simp: return_op_def Let_def guard_res_def bind_op_def [of "\<lambda>s. (Inl _, s)"])
qed

lemma reconcile_one_bytes:
  assumes ok: "bytes_ok s" and c: "current_locked (wr_key r) s = Some r"
  shows "bytes_ok (snd (reconcile_one E r s))"
proof -
  let ?a = "transitioned ABORTED (Some [(''reason'', JStr ''restart-before-effect'')]) (Some (wa_boot s)) (Some RELEASE) r"
  let ?p = "transitioned POSSIBLY_SENT (Some [(''reason'', JStr ''restart-after-effect-admission'')]) (Some (wa_boot s)) None r"
  have "bytes_ok (snd (bind_op (append_locked E None ?a) (\<lambda>_ s'. (Inr (), give_back E ?a s')) s))"
    if live: "wr_state r = RESERVED"
  proof (rule row_then_inv [where I = bytes_ok, OF ok])
    fix s1
    assume s1: "s1 = put_row (wr_pool ?a) (next_row ?a s) s"
    have "moved r ?a" "\<not> holds ?a" using live by (simp_all add: moved_def holds_def retains_object_def)
    then show "bytes_ok (snd (Inr (), give_back E ?a s1))"
      unfolding s1 using bytes_close [OF ok, of ?a r] c live by simp
  qed
  moreover have "bytes_ok (snd (bind_op (append_locked E None ?p) (\<lambda>_ s'.
        (Inr (), if retains_object (wr_retention ?p) then s' else give_back E ?p s')) s))"
    if live: "wr_state r = STARTED"
  proof (rule row_then_inv [where I = bytes_ok, OF ok])
    fix s1
    assume s1: "s1 = put_row (wr_pool ?p) (next_row ?p s) s"
    have "moved r ?p" "holds ?p = retains_object (wr_retention ?p)" using live by (simp_all add: moved_def holds_def)
    then show "bytes_ok (snd (Inr (), if retains_object (wr_retention ?p) then s1 else give_back E ?p s1))"
      unfolding s1 using bytes_move [OF ok, of ?p r] bytes_close [OF ok, of ?p r] c live by simp
  qed
  ultimately show ?thesis using ok unfolding reconcile_one_def Let_def by (auto split: if_splits)
qed

lemma reconcile_bytes:
  assumes "distinct (map wr_key rs)" "\<And>r. r \<in> set rs \<Longrightarrow> current_locked (wr_key r) s = Some r" "bytes_ok s"
  shows "bytes_ok (snd (reconcile E rs s))"
  using assms
proof (induction rs arbitrary: s)
  case Nil
  then show ?case by (simp add: return_op_def)
next
  case (Cons r rs)
  have r: "current_locked (wr_key r) s = Some r" using Cons.prems(2) by simp
  have one: "bytes_ok s1" if "reconcile_one E r s = (out, s1)" for out s1
    using reconcile_one_bytes [OF Cons.prems(3) r, of E] that by simp
  show ?case
    unfolding reconcile_Cons
  proof (rule bind_op_inv [where I = bytes_ok])
    show "bytes_ok s1" if "reconcile_one E r s = (Inl e, s1)" for e s1 using one that by blast
    show "bytes_ok (snd (reconcile E rs s1))" if run: "reconcile_one E r s = (Inr x, s1)" for x s1
    proof (rule Cons.IH)
      show "distinct (map wr_key rs)" using Cons.prems(1) by simp
      show "current_locked (wr_key q) s1 = Some q" if "q \<in> set rs" for q
      proof -
        have "wr_key q \<noteq> wr_key r" using Cons.prems(1) imageI [OF that, of wr_key] by auto
        from reconcile_one_evolves(2) [OF r run this] show ?thesis using Cons.prems(2) [of q] that by simp
      qed
    qed (use one run in blast)
  qed
qed

text \<open>The truncation of an extent never fails before it took effect.\<close>

definition shrinks :: "wenv \<Rightarrow> bool" where
  "shrinks E \<longleftrightarrow> (\<forall>s pool. we_shrink E s pool \<noteq> FailedBefore)"

lemma take_extent_bytes:
  assumes "shrinks E" "take_extent E r (put_row lp (next_row r s) s) = (out, s')" "bytes_ok s" "wr_state r = RESERVED"
    and "cp_bytes (wr_need r) \<le> wa_extent s (wr_pool r)" "0 \<le> cp_bytes (wr_need r)"
    and "case current_locked (wr_key r) s of None \<Rightarrow> True | Some p \<Rightarrow> \<not> holds p"
  shows "bytes_ok s'"
proof -
  let ?s1 = "put_row lp (next_row r s) s" and ?b = "cp_bytes (wr_need r)"
  let ?s2 = "set_extent (wr_pool r) (wa_extent ?s1 (wr_pool r) - ?b) ?s1"
  have old: "(case current_locked (wr_key r) s of None \<Rightarrow> 0 | Some p \<Rightarrow> share pool p) = 0" for pool
    using assms(7) by (auto simp: share_def split: option.splits)
  have "held_bytes pool ?s2 = held_bytes pool s + (if wr_pool r = pool then ?b else 0)" for pool
    using held_bytes_same [OF set_extent_fields(1)] old assms(4) by (simp add: held_bytes_put share_def)
  moreover have "current_locked k ?s2 = (if k = wr_key r then Some (as_loaded r) else current_locked k s)" for k
    using same_ledgerD(3) [OF set_extent_fields(1)] by simp
  ultimately have ok2: "bytes_ok ?s2"
    using assms(3,6) same_ledgerD(9) [OF set_extent_fields(1)] by (auto simp: bytes_ok_def)
  have "shrink_extent_locked E (wr_pool r) ?b ?s1 = (Inr (), ?s2) \<or> shrink_extent_locked E (wr_pool r) ?b ?s1 = (Inl OSError, ?s2)"
    using assms(1,5) by (cases "we_shrink E ?s1 (wr_pool r)") (auto simp: shrink_extent_locked_def shrinks_def)
  then show ?thesis
  proof
    assume "shrink_extent_locked E (wr_pool r) ?b ?s1 = (Inr (), ?s2)"
    then show ?thesis using assms(2) ok2 by (simp add: take_extent_def)
  next
    assume sh: "shrink_extent_locked E (wr_pool r) ?b ?s1 = (Inl OSError, ?s2)"
    let ?a = "transitioned ABORTED None None (Some RELEASE) r"
    obtain ao s3 where ap: "append_locked E None ?a ?s2 = (ao, s3)" by (cases "append_locked E None ?a ?s2")
    show ?thesis
    proof (cases ao)
      case (Inl e)
      then show ?thesis using assms(2) sh ap append_locked_Inl [of E None ?a ?s2 e s3] ok2 by (simp add: take_extent_def)
    next
      case (Inr u)
      then have s3: "s3 = put_row (wr_pool ?a) (next_row ?a ?s2) ?s2"
        using ap append_locked_Inr [of E None ?a ?s2 u s3] by simp
      have "current_locked (wr_key ?a) ?s2 = Some (as_loaded r)" using same_ledgerD(3) [OF set_extent_fields(1)] by simp
      moreover have "moved (as_loaded r) ?a" "holds (as_loaded r)" "\<not> holds ?a"
        using assms(4) by (simp_all add: moved_def holds_def retains_object_def)
      ultimately have "bytes_ok (give_back E ?a s3)" unfolding s3 using bytes_close [OF ok2] by blast
      then show ?thesis using assms(2) sh ap Inr by (simp add: take_extent_def)
    qed
  qed
qed

lemma refused_not_held: "refused_row r \<Longrightarrow> \<not> holds r"
  by (simp add: refused_row_def holds_def retains_object_def)

lemma reserve_new_bytes:
  assumes "shrinks E" and run: "reserve_new E q s = (out, s')" and ok: "slots_ok s" "bytes_ok s" "0 \<le> cp_bytes (rq_need q)"
    and key: "case current_locked (rq_key q) s of None \<Rightarrow> True | Some p \<Rightarrow> wr_state p = ABORTED \<or> wr_state p = RELEASED"
  shows "bytes_ok s'"
proof -
  have free: "case current_locked (rq_key q) s of None \<Rightarrow> True | Some p \<Rightarrow> \<not> holds p"
  proof (cases "current_locked (rq_key q) s")
    case (Some p)
    then have "wr_state p \<in> {ABORTED, REFUSED, RELEASED}" using key by auto
    moreover from this have "wr_retention p = RELEASE" using slots_okD(2) [OF ok(1) Some] by blast
    ultimately show ?thesis using Some by (auto simp: holds_def retains_object_def)
  qed simp
  have "\<And>pool. distinct (map fst (wa_slots s pool))" using slots_okD(1) [OF ok(1)] by (simp add: slots_named_def)
  from run this show ?thesis
  proof (cases rule: reserve_new_measures)
    case silent
    then show ?thesis using bytes_ok_same ok(2) by (auto simp: unwritten_def)
  next
    case (decided headroom remaining slots s1)
    have same: "same_ledger s s1" "wa_extent s1 = wa_extent s" and left: "cp_bytes remaining = wa_extent s (rq_pool q)"
      using decided(1) by (simp_all add: measured_def)
    have ok1: "bytes_ok s1" using bytes_ok_same [OF same] ok(2) by simp
    have free1: "case current_locked (rq_key q) s1 of None \<Rightarrow> True | Some p \<Rightarrow> \<not> holds p"
      using free same_ledgerD(3) [OF same(1)] by simp
    from decided(2) show ?thesis
    proof (cases rule: decide_reserve_cases)
      case silent
      then show ?thesis using ok1 by simp
    next
      case (refused e lp)
      let ?r = "refused_reservation E q headroom (cp_bytes remaining) s1"
      have "(case current_locked (wr_key ?r) s1 of None \<Rightarrow> 0 | Some p \<Rightarrow> share pool p) = 0" for pool
        using free1 by (auto simp: share_def split: option.splits)
      moreover have "share pool ?r = 0" for pool using refused_not_held [OF refused_fields(4)] by (simp add: share_def)
      ultimately have "held_bytes pool s' = held_bytes pool s1" for pool using refused by (simp add: held_bytes_put)
      then show ?thesis using refused ok1 ok(3) by (auto simp: bytes_ok_def)
    next
      case (granted left' taken)
      have "cp_bytes (rq_need q) \<le> wa_extent s1 (rq_pool q)" using fits_bounds(1) [OF granted(1)] left same(2) by simp
      then show ?thesis
        by (intro take_extent_bytes [OF assms(1) granted(3) ok1]) (use free1 ok(3) in simp_all)
    qed
  qed
qed

lemma reserve_bytes:
  assumes "shrinks E" "slots_ok s" "bytes_ok s" "0 \<le> cp_bytes (rq_need q)"
  shows "bytes_ok (snd (reserve_write E q s))"
proof -
  have fresh: "bytes_ok (snd (bind_op (reserve_new E q) (\<lambda>r. return_op (Inr (r, True))) s))"
    if "case current_locked (rq_key q) s of None \<Rightarrow> True | Some p \<Rightarrow> wr_state p = ABORTED \<or> wr_state p = RELEASED"
    by (rule bind_op_inv [where I = bytes_ok])
      (use reserve_new_bytes [OF assms(1) _ assms(2-4) that] in \<open>auto simp: return_op_def\<close>)
  have locked: "bytes_ok (snd (reserve_write_locked E q s))"
  proof (cases "current_locked (rq_key q) s")
    case None
    then show ?thesis using fresh by (simp add: reserve_write_locked_def Let_def)
  next
    case (Some p)
    show ?thesis
    proof (cases "wr_effect_fingerprint p = fingerprint (we_env E) (rq_identity q) \<and> retryable q p")
      case True
      then show ?thesis using fresh Some
        by (auto simp: reserve_write_locked_def Let_def assert_same_effect_def guard_res_def retryable_def)
    next
      case False
      then have "snd (reserve_write_locked E q s) = s" using Some
        by (auto simp: reserve_write_locked_def Let_def assert_same_effect_def guard_res_def bind_op_def return_op_def)
      then show ?thesis using assms(3) by simp
    qed
  qed
  obtain out s1 where r: "reserve_write_locked E q s = (out, s1)" by (cases "reserve_write_locked E q s")
  have "snd (reserve_write E q s) = s \<or> snd (reserve_write E q s) = s1"
    using r by (cases out)
      (auto simp: reserve_write_def bind_op_def return_op_def call_hook_def split: sum.splits prod.splits option.splits)
  then show ?thesis using locked r assms(3) by auto
qed

lemma write_receipts_same: "same_ledger s (snd (write_receipts E keys s)) \<and> wa_extent (snd (write_receipts E keys s)) = wa_extent s"
proof (induction keys arbitrary: s)
  case (Cons k keys)
  obtain out s1 where w: "write_receipt E k s = (out, s1)" by (cases "write_receipt E k s")
  then show ?case using write_receipt_same [OF w] Cons.IH [of s1] same_ledger_trans
    by (cases out) (auto simp: bind_op_def)
qed (simp add: return_op_def)

lemma open_authority_bytes:
  assumes "bytes_ok s"
  shows "bytes_ok (snd (open_authority E boot s))"
  unfolding open_authority_def
proof (rule bind_op_inv [where I = bytes_ok])
  let ?s = "s\<lparr>wa_boot := boot\<rparr>"
  have "held_bytes pool ?s = held_bytes pool s" "current_locked k ?s = current_locked k s" for pool k
    by (simp_all add: held_bytes_def held_def current_locked_def latest_locked_def rows_locked_def)
  then have "bytes_ok ?s" using assms by (simp add: bytes_ok_def)
  then have "bytes_ok (snd (reconcile_prior_boots_locked E ?s))"
    unfolding reconcile_prior_boots_locked_def
    by (intro reconcile_bytes [OF latest_distinct]) (use latest_keys in fastforce)+
  then have one: "bytes_ok s1" if "reconcile_prior_boots_locked E ?s = (out, s1)" for out s1 using that by simp
  show "bytes_ok s1" if "reconcile_prior_boots_locked E ?s = (Inl e, s1)" for e s1 by (rule one [OF that])
  show "bytes_ok (snd (write_receipts E keys s1))" if "reconcile_prior_boots_locked E ?s = (Inr x, s1)" for x s1 keys
    using one [OF that] bytes_ok_same write_receipts_same by blast
qed

lemma nonneg_capacity: "new_capacity c = Inr c' \<Longrightarrow> 0 \<le> cp_bytes c"
  by (auto simp: new_capacity_def capacity_values_def split: if_splits)

lemma perform_bytes:
  assumes "shrinks E" "slots_ok s" "bytes_ok s" "call_ok c"
  shows "bytes_ok (perform E c s)"
proof (cases c)
  case (Reserve q)
  then show ?thesis using reserve_bytes assms nonneg_capacity by simp
next
  case (Write r doc)
  then show ?thesis using write_object_same [of E r doc s] bytes_ok_same assms(3)
    by (cases "write_object E r doc s") auto
next
  case (Receipt key)
  then show ?thesis using write_receipt_same [of E key s] bytes_ok_same assms(3)
    by (cases "write_receipt E key s") auto
qed (use assms in \<open>simp_all add: claim_start_bytes finish_bytes refuse_indeterminate_bytes release_retained_bytes
    open_authority_bytes\<close>)

lemma evolve_profile: "evolve s s' \<Longrightarrow> wa_profile s' = wa_profile s"
  by (induction rule: evolve.induct) (auto simp: same_ledger_def)

lemma reachable_profile: "reachable E p s \<Longrightarrow> wa_profile s = p"
proof (induction rule: reachable.induct)
  case (reachable_new E p)
  then show ?case by (simp add: provision_def)
next
  case (reachable_call E p s c)
  have "slots_named s" using slots_okD(1) reachable_ok [OF reachable_call(1)] by blast
  then show ?case using evolve_profile perform_evolves reachable_call by metis
qed

lemma reachable_bytes:
  assumes "reachable E p s" "shrinks E"
  shows "bytes_ok s"
  using assms
proof (induction rule: reachable.induct)
  case (reachable_new E p)
  then show ?case by (simp add: bytes_ok_def held_bytes_def held_def current_locked_def provision_def
      latest_locked_def rows_locked_def all_pools_def dict_of_def)
next
  case (reachable_call E p s c)
  have "slots_ok s" using reachable_ok [OF reachable_call(1)] by blast
  then show ?case using perform_bytes reachable_call by blast
qed

section \<open>The book of effects\<close>

text \<open>What the ledger implements: a table that holds for each key the effect it is bound to and where that
  effect stands, and that changes by the steps of one automaton.\<close>

type_synonym book = "string \<Rightarrow> (string \<times> ReservationState) option"

fun next_states :: "ReservationState \<Rightarrow> ReservationState list" where
  "next_states RESERVED = [STARTED, ABORTED, TERMINAL]"
| "next_states STARTED = [COMMITTED, POSSIBLY_SENT]"
| "next_states COMMITTED = [RELEASED]"
| "next_states POSSIBLY_SENT = [TERMINAL, RELEASED]"
| "next_states TERMINAL = [RELEASED]"
| "next_states ABORTED = [RESERVED, REFUSED]"
| "next_states RELEASED = [RESERVED, REFUSED]"
| "next_states REFUSED = []"

inductive book_step :: "book \<Rightarrow> book \<Rightarrow> bool" where
  book_new: "b k = None \<Longrightarrow> st \<in> {RESERVED, REFUSED} \<Longrightarrow> book_step b (b(k \<mapsto> (fp, st)))"
| book_move: "b k = Some (fp, st) \<Longrightarrow> st' \<in> set (next_states st) \<Longrightarrow> book_step b (b(k \<mapsto> (fp, st')))"

definition book_of :: "authority \<Rightarrow> book" where
  "book_of s k = map_option (\<lambda>r. (wr_effect_fingerprint r, wr_state r)) (current_locked k s)"

lemma book_of_put: "book_of (put_row lp (next_row r s) s) = (book_of s)(wr_key r \<mapsto> (wr_effect_fingerprint r, wr_state r))"
  by (simp add: book_of_def fun_eq_iff)

lemma moved_next:
  assumes "moved c r" "wr_state c \<in> {ABORTED, REFUSED, RELEASED} \<Longrightarrow> wr_retention c = RELEASE"
  shows "wr_state r \<in> set (next_states (wr_state c))"
  using assms by (cases "wr_state c") (auto simp: moved_def retains_object_def FINAL_STATES_def)

lemma book_row:
  assumes "slots_ok s" "legal_row s r"
  shows "book_step (book_of s) (book_of (put_row lp (next_row r s) s))"
proof (cases "current_locked (wr_key r) s")
  case None
  then have "book_of s (wr_key r) = None" "wr_state r \<in> {RESERVED, REFUSED}"
    using assms(2) by (auto simp: book_of_def legal_row_def granted_row_def refused_row_def)
  then show ?thesis unfolding book_of_put by (rule book_new)
next
  case (Some c)
  then have b: "book_of s (wr_key r) = Some (wr_effect_fingerprint r, wr_state c)"
    using assms(2) by (simp add: book_of_def legal_row_def)
  have "wr_state r \<in> set (next_states (wr_state c))"
    using assms(2) Some moved_next [of c r] slots_okD(2) [OF assms(1) Some]
    by (auto simp: legal_row_def granted_row_def refused_row_def)
  with b show ?thesis unfolding book_of_put by (rule book_move)
qed

lemma book_same: "same_ledger s s' \<Longrightarrow> book_of s' = book_of s"
  by (simp add: book_of_def fun_eq_iff same_ledgerD(3))

lemma book_evolve: "evolve s s' \<Longrightarrow> slots_ok s \<Longrightarrow> book_step\<^sup>*\<^sup>* (book_of s) (book_of s')"
proof (induction rule: evolve.induct)
  case (evolve_boot s s1 boot)
  then show ?case by (simp add: book_of_def [abs_def] current_locked_def latest_locked_def rows_locked_def)
next
  case (evolve_row s s1 r pool)
  have "slots_ok s1" using slots_ok_evolve evolve_row by blast
  then show ?case using evolve_row book_row rtranclp.rtrancl_into_rtrancl by metis
qed (simp_all add: book_same)

definition called :: "wenv \<Rightarrow> authority \<Rightarrow> authority \<Rightarrow> bool" where
  "called E s s' \<longleftrightarrow> (\<exists>c. call_ok c \<and> s' = perform E c s)"

interpretation ledger: simulation "called E" book_step book_of slots_ok
proof
  fix s s'
  assume "slots_ok s" "called E s s'"
  moreover from this have "evolve s s'" using perform_evolves slots_okD(1) by (auto simp: called_def)
  ultimately show "book_step\<^sup>*\<^sup>* (book_of s) (book_of s')" "slots_ok s'"
    using book_evolve slots_ok_evolve by blast+
qed

lemma reachable_called: "reachable E p s \<longleftrightarrow> (called E)\<^sup>*\<^sup>* (provision p) s"
proof
  show "reachable E p s \<Longrightarrow> (called E)\<^sup>*\<^sup>* (provision p) s"
    by (induction rule: reachable.induct) (auto simp: called_def intro: rtranclp.rtrancl_into_rtrancl)
  show "(called E)\<^sup>*\<^sup>* (provision p) s \<Longrightarrow> reachable E p s"
    by (induction rule: rtranclp_induct) (auto simp: called_def intro: reachable.intros)
qed

end
