(* ===== verification/Write_Reservation_Safety.thy ===== *)
theory Write_Reservation_Safety
  imports Write_Reservation_Laws Event_Store_Laws
begin

text \<open>
  Lemmas behind the safety of the write authority: what an operation on one key leaves of the records of
  the others, how many ledger records the held reservations still need, what the callback of \<open>execute\<close> can
  influence, and how a receipt reads back.
\<close>

section \<open>Records of other keys\<close>

abbreviation content :: "Pool \<Rightarrow> string \<Rightarrow> authority \<Rightarrow> payload option option" where
  "content pool n s \<equiv> map_of (wa_slots s pool) n"

lemma content_put_slot [simp]:
  "content pool n (put_slot pool' m doc s) =
     (if pool' = pool \<and> m = n then map_option (\<lambda>_. doc) (content pool n s) else content pool n s)"
proof -
  have "map_of (map (\<lambda>(i, d). (i, if i = m then doc else d)) xs) n =
      (if m = n then map_option (\<lambda>_. doc) (map_of xs n) else map_of xs n)" for xs
    by (induction xs) auto
  from this [of "wa_slots s pool"] show ?thesis by (cases "pool' = pool"; cases "m = n") (simp_all add: put_slot_def)
qed

lemma content_clear: "clear_slot E pool' m s = (ok, s') \<Longrightarrow> pool' \<noteq> pool \<or> m \<noteq> n \<Longrightarrow> content pool n s' = content pool n s"
  by (auto simp: clear_slot_def split: if_splits fault.splits)

lemma content_scan:
  "scan_slots E pool' claimed names k s = (slots, s') \<Longrightarrow> pool' \<noteq> pool \<or> n \<in> set claimed
     \<Longrightarrow> content pool n s' = content pool n s"
proof (induction names arbitrary: k s slots)
  case (Cons name names)
  from Cons.prems(1) show ?case
  proof (cases rule: scan_slots_Cons)
    case claimed
    then show ?thesis using Cons by blast
  next
    case (stuck s1)
    have "content pool n s1 = content pool n s" by (rule content_clear [OF stuck(2)]) (use stuck(1) Cons.prems(2) in auto)
    then show ?thesis using Cons.IH [OF stuck(3) Cons.prems(2)] by simp
  next
    case last
    show ?thesis by (rule content_clear [OF last(2)]) (use last(1) Cons.prems(2) in auto)
  next
    case (more s1 rest)
    have "content pool n s1 = content pool n s" by (rule content_clear [OF more(2)]) (use more(1) Cons.prems(2) in auto)
    then show ?thesis using Cons.IH [OF more(4) Cons.prems(2)] by simp
  qed
qed simp

lemma content_available:
  assumes "available_object_slots_locked E pool' k s = (slots, s')" "r \<in> set (held pool s)" "n \<in> set (wr_object_slots r)"
  shows "content pool n s' = content pool n s"
proof (cases "k = 0")
  case True
  then show ?thesis using assms(1) by (simp add: available_object_slots_locked_def)
next
  case False
  then have "scan_slots E pool' (concat (map wr_object_slots (held pool' s))) (sort (map fst (wa_slots s pool'))) (nat k) s = (slots, s')"
    using assms(1) by (simp add: available_object_slots_locked_def)
  then show ?thesis by (rule content_scan) (use assms(2,3) in auto)
qed

lemma content_headroom:
  "headroom_of E pools s = (out, s') \<Longrightarrow> r \<in> set (held pool s) \<Longrightarrow> n \<in> set (wr_object_slots r)
     \<Longrightarrow> content pool n s' = content pool n s"
proof (induction pools arbitrary: s out s')
  case Nil
  then show ?case by (simp add: return_op_def)
next
  case (Cons pool' pools)
  obtain c s1 where c: "available_capacity_locked E pool' s = (c, s1)" by (cases "available_capacity_locked E pool' s")
  obtain slots where av: "available_object_slots_locked E pool' (cp_objects (pool_capacity (wa_profile s) pool')) s = (slots, s1)"
    using c by (auto simp: available_capacity_locked_def Let_def split: prod.splits)
  have one: "content pool n s1 = content pool n s" by (rule content_available [OF av Cons.prems(2,3)])
  have still: "r \<in> set (held pool s1)" using Cons.prems(2) same_ledgerD(4) [OF available_slots_same(1) [OF av]] by simp
  obtain h s2 where h: "headroom_of E pools s1 = (h, s2)" by (cases "headroom_of E pools s1")
  have "s' = s1 \<or> s' = s2" using Cons.prems(1) c h
    by (cases c; cases h) (auto simp: bind_op_def return_op_def)
  then show ?case using one Cons.IH [OF h still Cons.prems(3)] by auto
qed

lemma content_release:
  "release_slots E pool' names s = (ok, s') \<Longrightarrow> pool' \<noteq> pool \<or> n \<notin> set names \<Longrightarrow> content pool n s' = content pool n s"
proof (induction names arbitrary: s ok s')
  case (Cons m names)
  obtain o1 s1 o2 s2 where c: "clear_slot E pool' m s = (o1, s1)" "release_slots E pool' names s1 = (o2, s2)" by fastforce
  have "s' = s2" using Cons.prems(1) c by simp
  moreover have "content pool n s1 = content pool n s" by (rule content_clear [OF c(1)]) (use Cons.prems(2) in auto)
  ultimately show ?case using Cons.IH [OF c(2)] Cons.prems(2) by auto
qed simp

lemma content_give_back:
  assumes "wr_pool r \<noteq> pool \<or> n \<notin> set (wr_object_slots r)"
  shows "content pool n (give_back E r s) = content pool n s"
proof -
  obtain ok s1 where c: "release_slots E (wr_pool r) (wr_object_slots r) s = (ok, s1)"
    by (cases "release_slots E (wr_pool r) (wr_object_slots r) s")
  then show ?thesis using content_release [OF c assms] replenish_same(2)
    by (simp add: give_back_def release_object_slots_locked_def)
qed

lemma content_reserve_new:
  assumes run: "reserve_new E q s = (out, s')" and ok: "slots_ok s"
    and r: "current_locked k s = Some r" "holds r" "k \<noteq> rq_key q" "n \<in> set (wr_object_slots r)"
  shows "content (wr_pool r) n s' = content (wr_pool r) n s"
proof -
  let ?pool = "wr_pool r"
  have h: "r \<in> set (held ?pool s)" using r held_sound by blast
  obtain hr s0 where hd: "headroom_of E all_pools s = (hr, s0)" by (cases "headroom_of E all_pools s")
  have s0: "content ?pool n s0 = content ?pool n s" by (rule content_headroom [OF hd h r(4)])
  have same0: "same_ledger s s0" using headroom_of_same [OF hd] by blast
  show ?thesis
  proof (cases hr)
    case (Inl e)
    then have "s' = s0" using run hd by (simp add: reserve_new_def headroom_locked_def bind_op_def)
    then show ?thesis using s0 by simp
  next
    case hr: (Inr headroom)
    show ?thesis
    proof (cases "map_of headroom (rq_pool q)")
      case None
      then have "s' = s0" using run hd hr by (simp add: reserve_new_def headroom_locked_def bind_op_def return_op_def)
      then show ?thesis using s0 by simp
    next
      case (Some remaining)
      obtain slots s1 where av: "available_object_slots_locked E (rq_pool q) (cp_objects (rq_need q)) s0 = (slots, s1)"
        by (cases "available_object_slots_locked E (rq_pool q) (cp_objects (rq_need q)) s0")
      have h0: "r \<in> set (held ?pool s0)" using h same_ledgerD(4) [OF same0] by simp
      have s1: "content ?pool n s1 = content ?pool n s" using content_available [OF av h0 r(4)] s0 by simp
      have "distinct (map fst (wa_slots s0 (rq_pool q)))"
        using slots_okD(1) [OF ok] same0 by (simp add: slots_named_def same_ledger_def)
      note free = available_slots_free(3) [OF av this]
      have "decide_reserve E q headroom remaining slots s1 = (out, s')"
        using run hd hr Some av by (simp add: reserve_new_def headroom_locked_def decide_reserve_def bind_op_def [of "headroom_of E all_pools"])
      then show ?thesis
      proof (cases rule: decide_reserve_cases)
        case (granted left taken)
        let ?r = "granted_reservation E q headroom left slots s1"
        let ?s2 = "put_row (rq_pool q) (next_row ?r s1) s1"
        have other: "wr_pool ?r \<noteq> ?pool \<or> n \<notin> set (wr_object_slots ?r)" using free h0 r(4) by auto
        obtain so s3 where sh: "shrink_extent_locked E (wr_pool ?r) (cp_bytes (wr_need ?r)) ?s2 = (so, s3)"
          by (cases "shrink_extent_locked E (wr_pool ?r) (cp_bytes (wr_need ?r)) ?s2")
        let ?a = "transitioned ABORTED None None (Some RELEASE) ?r"
        obtain ao s4 where ap: "append_locked E None ?a s3 = (ao, s4)" by (cases "append_locked E None ?a s3")
        have "s' = s3 \<or> s' = s4 \<or> s' = give_back E ?a s4"
          using granted(3) sh ap by (auto simp: take_extent_def Let_def split: sum.splits)
        moreover have "wa_slots s3 = wa_slots s1" using shrink_same [OF sh] by simp
        moreover have "wa_slots s4 = wa_slots s3"
          using ap append_locked_Inl [of E None ?a s3 _ s4] append_locked_Inr [of E None ?a s3 _ s4] by (cases ao) auto
        moreover have "content ?pool n (give_back E ?a s4) = content ?pool n s4" by (rule content_give_back) (use other in simp)
        ultimately show ?thesis using s1 by auto
      qed (use s1 in simp_all)
    qed
  qed
qed

fun call_key :: "call \<Rightarrow> string option" where
  "call_key (Reserve q) = Some (rq_key q)"
| "call_key (Start r) = Some (wr_key r)"
| "call_key (Finish r st obs) = Some (wr_key r)"
| "call_key (Refuse r reason) = Some (wr_key r)"
| "call_key (Release r reason) = Some (wr_key r)"
| "call_key (Write r doc) = Some (wr_key r)"
| "call_key (Receipt key) = Some key"
| "call_key (Boot boot) = None"

text \<open>A record is written through a reservation that the authority handed out, so with its pool.\<close>

fun own_pool :: "call \<Rightarrow> authority \<Rightarrow> bool" where
  "own_pool (Write r doc) s = (\<forall>c. current_locked (wr_key r) s = Some c \<longrightarrow> wr_pool c = wr_pool r)"
| "own_pool _ s = True"

lemma content_row:
  assumes "wr_pool r \<noteq> pool \<or> n \<notin> set (wr_object_slots r)"
  shows "content pool n (snd (bind_op (append_locked E None r) (\<lambda>_ s1. (out, if b then s1 else give_back E r s1)) s)) = content pool n s"
  by (rule row_then_inv [where I = "\<lambda>s'. content pool n s' = content pool n s"])
    (use content_give_back [OF assms] in simp_all)

lemma content_row_return:
  "content pool n (snd (bind_op (append_locked E None r) (\<lambda>_. return_op out) s)) = content pool n s"
  by (rule row_then_inv [where I = "\<lambda>s'. content pool n s' = content pool n s"]) (simp_all add: return_op_def)

lemma content_write:
  assumes "write_object E w doc s = (out, s')" "wr_pool w \<noteq> pool \<or> n \<notin> set (wr_object_slots w)"
  shows "content pool n s' = content pool n s"
proof -
  have "s' = s \<or> wr_object_slots w \<noteq> [] \<and> s' = put_slot (wr_pool w) (hd (wr_object_slots w)) (Some (canon_dict doc)) s"
    using assms(1) by (auto simp: write_object_def split: if_splits option.splits)
  moreover have "wr_object_slots w \<noteq> [] \<Longrightarrow> hd (wr_object_slots w) \<in> set (wr_object_slots w)" by simp
  ultimately show ?thesis using assms(2) by (auto simp del: hd_in_set)
qed

lemma content_receipt:
  assumes "\<And>c. current_locked key s = Some c \<Longrightarrow> retains_object (wr_retention c)
      \<Longrightarrow> wr_pool c \<noteq> pool \<or> n \<notin> set (wr_object_slots c)"
  shows "content pool n (snd (write_receipt E key s)) = content pool n s"
proof (cases "current_locked key s")
  case None
  then show ?thesis by (simp add: write_receipt_def)
next
  case (Some c)
  show ?thesis
  proof (cases "requires_receipt (wr_retention c) \<and> wr_object_slots c \<noteq> []")
    case True
    then have "retains_object (wr_retention c)" by (simp add: requires_receipt_def retains_object_def)
    from assms [OF Some this] have other: "wr_pool c \<noteq> pool \<or> n \<notin> set (wr_object_slots c)" .
    let ?doc = "receipt_document E c s @ [(''receipt_digest'', JStr (digest_json (we_env E) (receipt_document E c s)))]"
    have "snd (write_receipt E key s) = snd (write_object E c ?doc s)"
      using True Some by (cases "wr_object_slots c") (simp_all add: write_receipt_def Let_def object_path_def)
    then show ?thesis using content_write [of E c ?doc s _ _ pool n] other by (cases "write_object E c ?doc s") simp
  next
    case False
    then have "snd (write_receipt E key s) = s"
      using Some by (auto simp: write_receipt_def Let_def object_path_def)
    then show ?thesis by simp
  qed
qed

lemma content_reserve:
  assumes "slots_ok s" "current_locked k s = Some r" "holds r" "k \<noteq> rq_key q" "n \<in> set (wr_object_slots r)"
  shows "content (wr_pool r) n (snd (reserve_write E q s)) = content (wr_pool r) n s"
proof -
  obtain out s1 where new: "reserve_new E q s = (out, s1)" by (cases "reserve_new E q s")
  have "snd (reserve_write_locked E q s) = s \<or> snd (reserve_write_locked E q s) = s1"
    using new by (cases out) (auto simp: reserve_write_locked_def Let_def bind_op_def return_op_def
        split: sum.splits option.splits prod.splits if_splits)
  then have "snd (reserve_write E q s) = s \<or> snd (reserve_write E q s) = s1"
    by (cases "reserve_write_locked E q s"; cases "fst (reserve_write_locked E q s)")
      (auto simp: reserve_write_def bind_op_def return_op_def call_hook_def split: sum.splits option.splits prod.splits if_splits)
  then show ?thesis using content_reserve_new [OF new assms] by auto
qed

text \<open>No call on one key touches a slot that another key holds.\<close>

lemma record_kept:
  assumes ok: "slots_ok s" and r: "current_locked k s = Some r" "holds r" "n \<in> set (wr_object_slots r)"
    and c: "call_key c = Some k'" "k' \<noteq> k" "own_pool c s"
  shows "content (wr_pool r) n (perform E c s) = content (wr_pool r) n s"
proof -
  let ?pool = "wr_pool r" and ?I = "\<lambda>s'. content (wr_pool r) n s' = content (wr_pool r) n s"
  have other: "wr_pool c' \<noteq> ?pool \<or> n \<notin> set (wr_object_slots c')" if "current_locked k' s = Some c'" "holds c'" for c'
    using slots_okD(5) [OF ok that(1) r(1) c(2) that(2) r(2)] r(3) by auto
  have ended: "?I (snd (bind_op (append_locked E None t) (\<lambda>_ s1. (out, if b then s1 else give_back E t s1)) s))"
    if "current_locked k' s = Some c'" "holds c'" "wr_pool t = wr_pool c'" "wr_object_slots t = wr_object_slots c'"
    for t b c' and out :: "WriteReservation res"
    by (rule content_row) (use other [OF that(1,2)] that(3,4) in simp)
  show ?thesis
  proof (cases c)
    case (Reserve q)
    then show ?thesis using content_reserve [OF ok r(1,2)] r(3) c by auto
  next
    case (Start w)
    then show ?thesis unfolding perform.simps claim_start_def Start
      by (intro on_current_inv [where I = ?I]) (auto simp: Let_def content_row_return return_op_def)
  next
    case (Finish w st obs)
    have k': "wr_key w = k'" using Finish c(1) by simp
    show ?thesis unfolding perform.simps finish_def Finish
    proof (rule on_current_inv [where I = ?I])
      fix c'
      assume c': "current_locked (wr_key w) s = Some c'"
      let ?t = "transitioned st (Some (bounded_dict E obs)) None (Some (if st = ABORTED then RELEASE else wr_retention c')) c'"
      have "?I (snd (bind_op (append_locked E None ?t) (\<lambda>_ s1. (Inr ?t, if retains_object (wr_retention ?t) then s1 else give_back E ?t s1)) s))"
        if "allowed_from st = Some (wr_state c')"
      proof (rule ended)
        show "current_locked k' s = Some c'" using c' k' by simp
        show "holds c'" using that by (cases st) simp_all
      qed simp_all
      then show "?I (snd ((if wr_state c' \<in> set FINAL_STATES then return_op (Inr c')
         else
           bind_op (return_op (guard_res (allowed_from st = Some (wr_state c')) ReservationConflict)) (\<lambda>_.
           let ended = ?t
           in bind_op (append_locked E None ended) (\<lambda>_ s.
              (Inr ended, if retains_object (wr_retention ended) then s else give_back E ended s)))) s))"
        by (cases "allowed_from st = Some (wr_state c')")
          (auto simp: return_op_def Let_def guard_res_def bind_op_def [of "\<lambda>s. (Inl _, s)"])
    qed simp
  next
    case (Refuse w reason)
    then show ?thesis unfolding perform.simps refuse_indeterminate_def Refuse
      by (intro on_current_inv [where I = ?I])
        (auto simp: Let_def content_row_return return_op_def [of "Inl _"] return_op_def [of "Inr (_ :: unit)"] guard_res_def
          bind_op_def [of "\<lambda>s. (Inl _, s)"] bind_op_def [of "\<lambda>s. (Inr _, s)"] return_op_def [of "Inr (_ :: WriteReservation)"])
  next
    case (Release w reason)
    have k': "wr_key w = k'" using Release c(1) by simp
    show ?thesis unfolding perform.simps release_retained_def Release
    proof (rule on_current_inv [where I = ?I])
      fix c'
      assume c': "current_locked (wr_key w) s = Some c'"
      let ?t = "transitioned RELEASED (Some [(''reason'', JStr (bounded_text E reason))]) None (Some RELEASE) c'"
      have "?I (snd (bind_op (append_locked E None ?t) (\<lambda>_ s1. (Inr ?t, if False then s1 else give_back E ?t s1)) s))"
        if "retains_object (wr_retention c')"
      proof (rule ended)
        show "current_locked k' s = Some c'" using c' k' by simp
        show "holds c'" using that by (simp add: holds_def)
      qed simp_all
      then show "?I (snd ((if wr_state c' = RELEASED then return_op (Inr c')
         else
           bind_op (return_op (guard_res (retains_object (wr_retention c') \<and> wr_state c' \<in> set FINAL_STATES)
             ReservationConflict)) (\<lambda>_.
           let released = ?t in bind_op (append_locked E None released) (\<lambda>_ s. (Inr released, give_back E released s)))) s))"
        by (cases "retains_object (wr_retention c') \<and> wr_state c' \<in> set FINAL_STATES")
          (auto simp: return_op_def Let_def guard_res_def bind_op_def [of "\<lambda>s. (Inl _, s)"])
    qed simp
  next
    case (Write w doc)
    have k': "wr_key w = k'" using Write c(1) by simp
    obtain out s' where run: "write_object E w doc s = (out, s')" by (cases "write_object E w doc s")
    have "s' = s \<or> wr_pool w \<noteq> ?pool \<or> n \<notin> set (wr_object_slots w)"
    proof (cases "current_locked k' s")
      case None
      then show ?thesis using run k' by (auto simp: write_object_def current_locked_def split: if_splits)
    next
      case (Some c')
      show ?thesis
      proof (cases "retains_object (wr_retention c') \<and> wr_object_slots c' = wr_object_slots w")
        case True
        then have "wr_pool c' \<noteq> ?pool \<or> n \<notin> set (wr_object_slots c')" using other [OF Some] by (simp add: holds_def)
        then show ?thesis using True c(3) Some k' Write by auto
      next
        case False
        then show ?thesis using run Some k' by (auto simp: write_object_def current_locked_def split: if_splits)
      qed
    qed
    then show ?thesis using content_write [OF run] Write run by auto
  next
    case (Receipt key)
    then show ?thesis using content_receipt [of key s ?pool n E] other c(1) by (auto simp: holds_def)
  qed (use c(1) in simp)
qed

section \<open>Promised records\<close>

definition traced :: "string \<Rightarrow> authority \<Rightarrow> nat" where
  "traced k s = length (filter (\<lambda>row. wr_key (lr_reservation row) = k) (rows_locked s))"

definition debt :: "Pool \<Rightarrow> nat \<Rightarrow> WriteReservation \<Rightarrow> int" where
  "debt pool n r = (if wr_pool r = pool \<and> holds r then max (cp_operations (wr_need r) - int n) 0 else 0)"

lemma debt_nonneg [simp]: "0 \<le> debt pool n r"
  by (simp add: debt_def)

lemma debt_loaded [simp]: "debt pool n (as_loaded r) = debt pool n r"
  by (simp add: debt_def)

lemma traced_put: "traced k (put_row lp (next_row r s) s) = traced k s + of_bool (wr_key r = k)"
  by (simp add: traced_def) (simp add: next_row_def)

lemma future_debts: "future_operations pool s = sum_list (map (\<lambda>(k, r). debt pool (traced k s) r) (latest_locked s))"
proof -
  have sums: "sum_list (map (\<lambda>r. max (cp_operations (wr_need r) - int (traced (wr_key r) s)) 0)
        (filter (\<lambda>r. wr_pool r = pool \<and> holds r) (map snd kvs))) = sum_list (map (\<lambda>(k, r). debt pool (traced k s) r) kvs)"
    if "\<forall>kv \<in> set kvs. wr_key (snd kv) = fst kv" for kvs
    using that
  proof (induction kvs)
    case (Cons kv kvs)
    then show ?case by (cases kv) (simp add: debt_def)
  qed simp
  have "\<forall>kv \<in> set (latest_locked s). wr_key (snd kv) = fst kv" using latest_keys by fastforce
  from sums [OF this] show ?thesis unfolding future_operations_def held_def traced_def .
qed

lemma sum_dict_set_keyed:
  fixes f g :: "'k \<Rightarrow> 'v \<Rightarrow> int"
  assumes "distinct (map fst d)" "\<And>j. j \<noteq> k \<Longrightarrow> g j = f j"
  shows "sum_list (map (case_prod g) (dict_set k v d)) =
    sum_list (map (case_prod f) d) - (case map_of d k of None \<Rightarrow> 0 | Some u \<Rightarrow> f k u) + g k v"
  using assms(1)
proof (induction d)
  case (Cons kv d)
  obtain j u where kv: "kv = (j, u)" by (cases kv)
  show ?case
  proof (cases "j = k")
    case True
    have "map (case_prod g) d = map (case_prod f) d" using Cons.prems kv True assms(2) by (force intro!: map_cong)
    then have "sum_list (map (case_prod g) d) = sum_list (map (case_prod f) d)" by (rule arg_cong)
    then show ?thesis using kv True by simp
  next
    case False
    then show ?thesis using Cons kv assms(2) by simp
  qed
qed simp

lemma future_put:
  "future_operations pool (put_row lp (next_row r s) s) = future_operations pool s
     - (case current_locked (wr_key r) s of None \<Rightarrow> 0 | Some p \<Rightarrow> debt pool (traced (wr_key r) s) p)
     + debt pool (traced (wr_key r) s + 1) r"
proof -
  have d: "distinct (map fst (latest_locked s))" unfolding latest_locked_def by (rule distinct_dict_of)
  have "sum_list (map (case_prod (\<lambda>k. debt pool (traced k (put_row lp (next_row r s) s))))
        (dict_set (wr_key r) (as_loaded r) (latest_locked s))) =
      sum_list (map (case_prod (\<lambda>k. debt pool (traced k s))) (latest_locked s))
      - (case map_of (latest_locked s) (wr_key r) of None \<Rightarrow> 0 | Some u \<Rightarrow> debt pool (traced (wr_key r) s) u)
      + debt pool (traced (wr_key r) (put_row lp (next_row r s) s)) (as_loaded r)"
    by (rule sum_dict_set_keyed [OF d]) (simp add: traced_put)
  then show ?thesis by (simp add: future_debts traced_put current_locked_def)
qed

lemma member_le_sum:
  fixes f :: "'b \<Rightarrow> int"
  assumes "x \<in> set xs" "\<And>y. 0 \<le> f y"
  shows "f x \<le> sum_list (map f xs)"
proof -
  have "0 \<le> sum_list (map f ys)" for ys using assms(2) by (intro sum_list_nonneg) auto
  then show ?thesis using assms by (induction xs) (auto intro: add_increasing add_increasing2)
qed

lemma debt_le_future:
  assumes "current_locked k s = Some r"
  shows "debt pool (traced k s) r \<le> future_operations pool s"
proof -
  have "(k, r) \<in> set (latest_locked s)" using assms by (auto simp: current_locked_def dest: map_of_SomeD)
  from member_le_sum [OF this, of "case_prod (\<lambda>k. debt pool (traced k s))"] show ?thesis
    by (auto simp: future_debts split: prod.splits)
qed

definition backed :: "Pool \<Rightarrow> authority \<Rightarrow> bool" where
  "backed pool s \<longleftrightarrow> future_operations pool s \<le> available_operations_locked pool s"

definition rows_fit :: "wenv \<Rightarrow> bool" where
  "rows_fit E \<longleftrightarrow> (\<forall>row. we_length E (ledger_document row) < LEDGER_RECORD_BYTES)"

lemma available_put:
  "available_operations_locked pool (put_row lp row s) = available_operations_locked pool s - of_bool (lp = pool)"
  by (simp add: available_operations_locked_def)

lemma backed_same: "same_ledger s s' \<Longrightarrow> backed pool s' = backed pool s"
  by (simp add: backed_def same_ledgerD)

text \<open>One more row for a reservation with records left to it.\<close>

lemma promised_row:
  assumes "backed pool s" "rows_fit E" "current_locked k s = Some c" "wr_pool c = pool" "holds c"
    and "int (traced k s) < cp_operations (wr_need c)"
    and "wr_key t = k" "wr_pool t = pool" "wr_need t = wr_need c"
  shows "append_locked E None t s = (Inr (), put_row pool (next_row t s) s)" "backed pool (put_row pool (next_row t s) s)"
proof -
  have debt: "debt pool (traced k s) c = cp_operations (wr_need c) - int (traced k s)" using assms(4-6) by (simp add: debt_def)
  then have "0 < available_operations_locked pool s"
    using debt_le_future [OF assms(3), of pool] assms(1,6) by (simp add: backed_def)
  then show "append_locked E None t s = (Inr (), put_row pool (next_row t s) s)"
    using assms(2,8) unfolding append_locked_Inr by (auto simp: rows_fit_def add1_zle_eq)
  have "debt pool (traced k s + 1) t \<le> debt pool (traced k s) c - 1"
    using assms(6,9) unfolding debt by (simp add: debt_def)
  then show "backed pool (put_row pool (next_row t s) s)"
    using assms(1,3,7) by (simp add: backed_def future_put available_put)
qed

section \<open>The callback of an effect\<close>

definition started_key :: "string \<Rightarrow> authority \<Rightarrow> bool" where
  "started_key k s \<longleftrightarrow> (\<exists>r. current_locked k s = Some r \<and> wr_state r \<in> {STARTED, COMMITTED, POSSIBLY_SENT, TERMINAL})"

lemma counted_le: "counted st n \<Longrightarrow> n \<le> 1"
  by (cases "(st, n)" rule: counted.cases) simp_all

lemma once_started:
  assumes "once k s" "0 < starts k s" "\<not> released k s"
  shows "started_key k s"
proof (cases "current_locked k s")
  case None
  then show ?thesis using assms by (simp add: once_def)
next
  case (Some r)
  then show ?thesis using assms by (cases "wr_state r") (auto simp: once_def started_key_def)
qed

lemma await_started:
  "wr_state r \<in> {STARTED, COMMITTED, POSSIBLY_SENT, TERMINAL} \<Longrightarrow> wr_key r = k \<Longrightarrow> (\<And>s. s \<in> set polls \<Longrightarrow> started_key k s)
     \<Longrightarrow> wr_state (await_terminal r polls) \<in> {STARTED, COMMITTED, POSSIBLY_SENT, TERMINAL}"
proof (induction polls arbitrary: r)
  case (Cons s polls)
  obtain c where c: "current_locked k s = Some c" "wr_state c \<in> {STARTED, COMMITTED, POSSIBLY_SENT, TERMINAL}"
    using Cons.prems(3) [of s] by (auto simp: started_key_def)
  have "\<And>s. s \<in> set polls \<Longrightarrow> started_key k s" using Cons.prems(3) by simp
  from Cons.IH [OF c(2) current_key [OF c(1)] this]
  have "wr_state (await_terminal c polls) \<in> {STARTED, COMMITTED, POSSIBLY_SENT, TERMINAL}" .
  then show ?case using Cons.prems(1,2) c(1) by (simp del: insert_iff)
qed simp

lemma reserve_started:
  assumes "started_key (rq_key q) s" "\<not> rq_retry_aborted q" "\<not> rq_retry_released q" "reserve_write E q s = (Inr r, s')"
  shows "s' = s" "current_locked (rq_key q) s = Some r"
proof -
  obtain c where "current_locked (rq_key q) s = Some c" using assms(1) by (auto simp: started_key_def)
  then have "s' = s \<and> current_locked (rq_key q) s = Some r"
    using assms(2-4)
    by (auto simp: reserve_write_def reserve_write_locked_def Let_def retryable_def assert_same_effect_def guard_res_def
        bind_op_def return_op_def call_hook_def split: if_splits option.splits)
  then show "s' = s" "current_locked (rq_key q) s = Some r" by simp_all
qed

section \<open>Receipts\<close>

lemma canon_dict_extra:
  assumes "k \<notin> fst ` set p"
  shows "filter (\<lambda>kv. fst kv \<noteq> k) (canon_dict (p @ [(k, v)])) = canon_dict p"
proof -
  have "filter (\<lambda>kv. fst kv \<noteq> k) (p @ [(k, v)]) = p" using assms by (auto simp: filter_id_conv)
  then show ?thesis by (simp only: canon_dict_filter [symmetric])
qed

lemma receipt_key: "''receipt_digest'' \<notin> fst ` set (receipt_document E r s)" "map_of (receipt_document E r s) ''key'' = Some (JStr (wr_key r))"
  by (simp_all add: receipt_document_def)

lemma read_receipt:
  "read_document E (Some (canon_dict (receipt_document E r s @ [(''receipt_digest'', JStr (digest_json (we_env E) (receipt_document E r s)))])))
     = Inr (canon_dict (receipt_document E r s))"
  using receipt_key(1) [of E r s]
  by (simp add: read_document_def Let_def canon_dict_extra map_add_def map_of_eq_None_iff [THEN iffD2] guard_res_def)

end
