(* ===== verification/Spec2Isabelle.thy ===== *)
theory Spec2Isabelle
  imports Event_Store_Properties Triage Order_Properties Stall_Properties Work_Generation_Properties Write_Reservation_Properties
begin

text \<open>
  The Solver of this repository plays CTF competitions unattended.  A Run reads Challenges from a
  Board, gives each a Tier, decides which to work on next and for how long, works on it in Attempts
  carried out by workers, ends an Attempt that is going nowhere, and records everything in one
  append-only log, so that a restarted process knows what it owns and what it has already sent.  This
  development verifies the parts that decide and the parts that remember.

  \<^bold>\<open>Parts and theories.\<close>  A component is a theory of definitions, named as in the source, followed by
  theories of laws and properties.

  \<^item> \<open>Prelude\<close>: exceptions and results, JSON values and their canonical form, decimal rendering, Python
    dicts as association lists; the locale \<open>replayed\<close> for logs that are folded into a state and the
    locale \<open>simulation\<close> for a detailed system that implements an abstract one.
  \<^item> \<open>Event_Store\<close>, \<open>Event_Store_Laws\<close>, \<open>Event_Contracts\<close>, \<open>Event_Store_Properties\<close>: the canonical log,
    \<open>src/solver/event_store_core.py\<close> (\<open>EventStoreCore\<close>) with \<open>event_store_storage.py\<close> and the contracts of
    Observations, Lifecycle facts and Work generations in \<open>event_store_contracts.py\<close>.  The record \<open>store\<close>
    is the two line files, the sealed blobs, the redactor and the hook; \<open>append\<close>, \<open>compare_and_append\<close>,
    \<open>reserve\<close>, \<open>commit\<close>, \<open>terminal_snapshot\<close> and the verifying reads are its operations.
  \<^item> \<open>Intake_Types\<close>, \<open>Triage\<close>: identities and snapshots of \<open>intake_qualification.py\<close>, and \<open>triage.py\<close>,
    which reads a Tier off what the Board states, else off the order of solve counts, else off a model's
    answer.
  \<^item> \<open>Civil_Time\<close>: UTC instants and their ISO rendering, from the standard library.
  \<^item> \<open>Order_Documents\<close>, \<open>Order_Policy\<close>, \<open>Order_Laws\<close>, \<open>Order_Properties\<close>: \<open>order_policy.py\<close>, the pure decision
    over one Intake snapshot (\<open>decide_order\<close>) with every document it seals.
  \<^item> \<open>Stall\<close>, \<open>Stall_Properties\<close>: \<open>stall.py\<close>, the kill deadline, the watch over one Attempt and the breaker
    over barren Attempts.
  \<^item> \<open>Work_Generation\<close>, \<open>Work_Generation_Laws\<close>, \<open>Work_Generation_Properties\<close>: \<open>work_generation.py\<close>, the
    fence that gives each Work one owner at a time.  Its state is a projection of the canonical log, and
    every operation of \<open>GenerationFence\<close> is an operation on the modelled store.
  \<^item> \<open>Write_Reservation\<close>, \<open>Write_Reservation_Laws\<close>, \<open>Write_Reservation_Safety\<close>,
    \<open>Write_Reservation_Properties\<close>: \<open>write_reservation.py\<close> (\<open>WriteAuthority\<close>, \<open>ReservedEffect\<close>) with
    \<open>write_reservation_contracts.py\<close>, \<open>write_reservation_storage.py\<close> and
    \<open>write_reservation_receipt.py\<close>.  The record \<open>authority\<close> is the directory \<open>write-authority/\<close>: the sealed
    profile and, for each of four pools, the ledger of fixed records, the preallocated extent and the
    precreated object slots.

  \<^bold>\<open>How code became definitions.\<close>  A pure function is a function; a method that changes files or fields
  takes the state and returns a result with the new state, also when it raises.  An exception is a value
  of \<open>exn\<close>; messages are dropped.  A dict is an association list in insertion order, and \<open>d[key]\<close> is a
  lookup that can raise \<open>KeyError\<close>.  A critical section under a lock is one step, and what other threads
  do in between is an explicit sequence of such steps.  An integer is unbounded, as in Python; a
  \<open>Fraction\<close> is a \<open>rat\<close>; a clock is microseconds.  Text is ASCII.  Hooks that the code calls between two
  durable writes may raise, which is how a crash at that point is expressed.

  \<^bold>\<open>Parameters.\<close>  SHA-256, the rendering of JSON to bytes and its length, \<open>repr\<close>, the redactor, the model
  behind the judge, callbacks of a caller, and for each file operation of the write authority whether it
  fails and whether it took effect first, are arguments of the definitions.  No theorem assumes that the
  digest is free of collisions unless it says so.

  \<^bold>\<open>What is proved.\<close>

  \<^item> Canonical log: every append, crashes included, leaves a stream that verifies and is longer by the
    proposed event or by nothing; a crash at any hook followed by the same append commits once; a repeated
    append writes nothing; a fresh event is committed when no reservation is outstanding, and after an
    abandoned reservation no event is.
  \<^item> Triage: a Judgement with a Tier from 1 to 4 for every Challenge whatever the model answers; Tiers
    follow the order of solves; the difficulty matcher accepts what the pattern says; what a model answer
    may contain.
  \<^item> Order: when a decision is made and when it raises; the rows are a strict ranking of the whole
    population with bounded Tiers and budgets; which rows are committed, when a grant is safe, when the
    policy explores; the percentile loop equals the mid-rank formula; an inadmissible Challenge with an
    empty reason is granted.
  \<^item> Stall: over all sequences of operations the deadline is bounded, a sealed one does not move back,
    every Attempt ends, Checkpoints are minted exactly on a repeated change, a surrender is final, and
    when the breaker trips; the backoff raises after 1026 barren Attempts.
  \<^item> Generations: one owner per Work and one generation per Attempt in every log; a closed generation
    is fenced out for ever; what acquire, close and the restart leave in the log; two acquires without
    the lock can share an identity.
  \<^item> Write authority: for every sequence of calls, restarts and failing file operations a key is started
    at most once, its effect is not run again, and the ledger implements an abstract table that moves by
    the lifecycle automaton (\<open>book_step\<close>, through the locale \<open>simulation\<close>); pools are not overcommitted, held
    records are out of reach of other keys, promised ledger records are there, and a receipt verifies; two
    cases in which the promise of reserved space fails.

  \<^bold>\<open>Loops.\<close>  Every loop of the modelled code runs over a finite sequence and is a recursion on it, so no
  fuel is used and every definition is total.  The one loop bounded by the clock, \<open>_await_terminal\<close>, takes
  the finite list of states that it polls before its deadline.

  \<^bold>\<open>Not modelled.\<close>  Process supervision, the Attempt executor and its isolation, the Board and target
  brokers, model calls and tools are calls to the operating system, the network or other programs.  The
  submission path, the final interval, Intake's two Board passes, instances and leases, lanes, leads and
  recovery have logic of their own and are not modelled; those that record their state use the canonical
  log or the write authority.  Of the modelled parts, these are left out: file-system errors of the event
  store, its writer lock and the registry entries of other modules; Triage's prompt and rendering; the
  reading of a sealed Order input back from its document; a torn ledger record, a partly written extent,
  the process-wide writer lock and the check of an existing directory against \<open>profile.json\<close> in the write
  authority; and the receipts that are only projected for inspection.
\<close>

end
